theory Spec2Isabelle
  imports Main "HOL-Library.Word" "HOL-Library.Char_ord" "HOL-Library.List_Lexorder"
begin

unbundle bit_operations_syntax

section \<open>Errors\<close>

text \<open>
  The Go code reports failures as \<open>fmt.Errorf\<close> values. Each constructor below stands
  for one error site of the source, named after its message.
\<close>

datatype error =
    ErrInvalidCIDR                  \<comment> \<open>"invalid CIDR: ..." (net.ParseCIDR failed)\<close>
  | ErrOnlyIPv4                     \<comment> \<open>"only IPv4 subnets are supported"\<close>
  | ErrAtLeast3UsableIPs            \<comment> \<open>"network must have at least 3 usable IPs"\<close>
  | ErrNoAvailableIPs               \<comment> \<open>"no available IPs in pool ..." (pool exhausted)\<close>
  | ErrIPEmpty                      \<comment> \<open>"IP cannot be empty"\<close>
  | ErrIPAlreadyAllocated string    \<comment> \<open>"IP %s is already allocated"\<close>
  | ErrCannotReleaseServerIP        \<comment> \<open>"cannot release server IP" (invalid release)\<close>
  | ErrIPNotAllocated string        \<comment> \<open>"IP %s is not allocated" (invalid release)\<close>
  | ErrKeyRequired                  \<comment> \<open>bbolt: "key required"\<close>
  | ErrKeyTooLarge                  \<comment> \<open>bbolt: "key too large"\<close>
  | ErrNetworkNameExists string     \<comment> \<open>"network name %q already exists"\<close>
  | ErrNetworkNotFound string       \<comment> \<open>"network %q not found"\<close>
  | ErrNetworkDataNotFound          \<comment> \<open>"network data not found"\<close>
  | ErrServerExists string          \<comment> \<open>"server already exists for network %q"\<close>
  | ErrServerNameExists string      \<comment> \<open>"server name %q already exists"\<close>
  | ErrServerNotFoundForNetwork     \<comment> \<open>"server not found for network"\<close>
  | ErrNoServerFound string         \<comment> \<open>"no server found for network %q"\<close>
  | ErrNoServerInNetwork            \<comment> \<open>"no server found in network"\<close>
  | ErrNodeNameExists string        \<comment> \<open>"node name %q already exists"\<close>
  | ErrNodeNotFound string          \<comment> \<open>"node %q not found"\<close>
  | ErrNodeDataNotFound             \<comment> \<open>"node data not found"\<close>
  | ErrNoConfigVersion string       \<comment> \<open>"no config version found for network %q"\<close>
  | ErrIPPoolStateNotFound string   \<comment> \<open>"IP pool state not found for network %s"\<close>
  | ErrPeerRequiresPublicAddress    \<comment> \<open>"peer type nodes require a public address"\<close>
  | ErrValidation string            \<comment> \<open>an error of the validator, with its message\<close>
  | ErrKeyGeneration                \<comment> \<open>"failed to generate private/public key"\<close>
  | ErrWrap string error            \<comment> \<open>\<open>fmt.Errorf("<text>: %w", err)\<close>\<close>
  | ErrNilPool                      \<comment> \<open>a nil pool in the cache (Go would panic; not reached)\<close>

section \<open>Decimal text\<close>

text \<open>Go prints integers in decimal without leading zeros (\<open>strconv\<close>, \<open>%d\<close>).\<close>

definition digit_char :: "nat \<Rightarrow> char" where
  "digit_char d = char_of (48 + d)"

fun itoa_nat :: "nat \<Rightarrow> string" where
  "itoa_nat n = (if n < 10 then [digit_char n] else itoa_nat (n div 10) @ [digit_char (n mod 10)])"

declare itoa_nat.simps [simp del]

definition itoa :: "int \<Rightarrow> string" where
  "itoa i = (if i < 0 then CHR ''-'' # itoa_nat (nat (- i)) else itoa_nat (nat i))"

definition is_digit :: "char \<Rightarrow> bool" where
  "is_digit c = (48 \<le> (of_char c :: nat) \<and> (of_char c :: nat) \<le> 57)"

definition digit_val :: "char \<Rightarrow> nat" where
  "digit_val c = of_char c - 48"

section \<open>IP addresses (package net of the Go library, as far as the pool uses it)\<close>

text \<open>
  A \<open>net.IP\<close> is a byte slice of length 4 (IPv4) or 16; \<open>nil\<close> is \<open>None\<close> where a
  function can return it.
\<close>

type_synonym IP = "8 word list"

text \<open>\<open>IP.To4\<close>: a 4-byte address as it is, a 16-byte IPv4-mapped address
  (ten zero bytes, then \<open>ff ff\<close>) as its last four bytes, anything else \<open>nil\<close>.\<close>

definition To4 :: "IP \<Rightarrow> IP option" where
  "To4 ip =
     (if length ip = 4 then Some ip
      else if length ip = 16 \<and> take 10 ip = replicate 10 0 \<and> ip ! 10 = 0xff \<and> ip ! 11 = 0xff
      then Some (drop 12 ip)
      else None)"

definition dotted :: "IP \<Rightarrow> string" where
  "dotted ip =
     itoa_nat (unat (ip ! 0)) @ ''.'' @ itoa_nat (unat (ip ! 1)) @ ''.'' @
     itoa_nat (unat (ip ! 2)) @ ''.'' @ itoa_nat (unat (ip ! 3))"

text \<open>
  \<open>IP.String\<close>: \<open>"<nil>"\<close> for the nil address, the dotted form when \<open>To4\<close>
  succeeds. The IPv6 text form is not modelled: every address that the pool prints is
  nil or has passed \<open>To4\<close>; the placeholder \<open>''?''\<close> is never produced there.
\<close>

definition IP_String :: "IP option \<Rightarrow> string" where
  "IP_String x =
     (case x of None \<Rightarrow> ''<nil>''
      | Some ip \<Rightarrow> (case To4 ip of Some ip4 \<Rightarrow> dotted ip4 | None \<Rightarrow> ''?''))"

text \<open>Splitting a string at every dot.\<close>

fun split_dots :: "string \<Rightarrow> string list" where
  "split_dots [] = [[]]"
| "split_dots (c # cs) =
     (if c = CHR ''.'' then [] # split_dots cs
      else (case split_dots cs of f # fs \<Rightarrow> (c # f) # fs | [] \<Rightarrow> [[c]]))"

definition dec_val :: "string \<Rightarrow> nat" where
  "dec_val s = foldl (\<lambda>v c. v * 10 + digit_val c) 0 s"

text \<open>
  One field of an IPv4 literal, as \<open>netip\<close> reads it: one or more decimal digits, no
  leading zero in front of another digit, value at most 255.
\<close>

definition parse_octet :: "string \<Rightarrow> 8 word option" where
  "parse_octet f =
     (if f = [] \<or> \<not> list_all is_digit f then None
      else if 1 < length f \<and> hd f = CHR ''0'' then None
      else if 255 < dec_val f then None
      else Some (of_nat (dec_val f)))"

definition parseIPv4 :: "string \<Rightarrow> IP option" where
  "parseIPv4 s =
     (case map parse_octet (split_dots s) of
        [Some a, Some b, Some c, Some d] \<Rightarrow> Some [a, b, c, d]
      | _ \<Rightarrow> None)"

text \<open>
  \<open>netip.ParseAddr\<close> looks for the first of \<open>.\<close>, \<open>:\<close> and \<open>%\<close> and reads an IPv4
  literal when it is a dot, an IPv6 literal when it is a colon. The IPv6 reader is a
  parameter \<open>p6\<close> of the model: it returns the 16 bytes of a zone-less IPv6 literal
  (a result of any other length is dropped).
\<close>

datatype Addr = Addr4 IP | Addr6 IP

definition ParseAddr :: "(string \<Rightarrow> IP option) \<Rightarrow> string \<Rightarrow> Addr option" where
  "ParseAddr p6 s =
     (case find (\<lambda>c. c = CHR ''.'' \<or> c = CHR '':'' \<or> c = CHR ''%'') s of
        None \<Rightarrow> None
      | Some c \<Rightarrow>
          if c = CHR ''.'' then map_option Addr4 (parseIPv4 s)
          else if c = CHR '':'' then
            (case p6 s of Some b \<Rightarrow> if length b = 16 then Some (Addr6 b) else None | None \<Rightarrow> None)
          else None)"

text \<open>
  \<open>net.ParseIP\<close>. Only its IPv4 branch is modelled, and its result is given as the four
  bytes (Go returns the IPv4-mapped 16-byte form, which \<open>increment\<close> and \<open>String\<close>
  narrow with \<open>To4\<close> at once). The pool parses only strings that it printed in dotted
  form itself.
\<close>

definition ParseIP :: "string \<Rightarrow> IP option" where
  "ParseIP s =
     (case find (\<lambda>c. c = CHR ''.'' \<or> c = CHR '':'' \<or> c = CHR ''%'') s of
        Some c \<Rightarrow> if c = CHR ''.'' then parseIPv4 s else None
      | None \<Rightarrow> None)"

text \<open>\<open>strings.Cut(s, "/")\<close>.\<close>

fun cut_slash :: "string \<Rightarrow> (string \<times> string) option" where
  "cut_slash [] = None"
| "cut_slash (c # cs) =
     (if c = CHR ''/'' then Some ([], cs)
      else map_option (\<lambda>(a, b). (c # a, b)) (cut_slash cs))"

text \<open>
  \<open>dtoi\<close> of package net: the decimal number at the start of the string and how many
  characters it takes; it fails on no digit and on a value of \<open>0xFFFFFF\<close> or more.
\<close>

fun dtoi_loop :: "string \<Rightarrow> nat \<Rightarrow> nat \<Rightarrow> (nat \<times> nat) option" where
  "dtoi_loop [] n i = (if i = 0 then None else Some (n, i))"
| "dtoi_loop (c # cs) n i =
     (if is_digit c then
        (let n' = n * 10 + digit_val c in
         if 0xFFFFFF \<le> n' then None else dtoi_loop cs n' (i + 1))
      else if i = 0 then None else Some (n, i))"

definition dtoi :: "string \<Rightarrow> (nat \<times> nat) option" where
  "dtoi s = dtoi_loop s 0 0"

text \<open>\<open>net.CIDRMask(ones, bits)\<close> for \<open>bits = 8 * l\<close>, byte by byte.\<close>

fun CIDRMask_bytes :: "nat \<Rightarrow> nat \<Rightarrow> 8 word list" where
  "CIDRMask_bytes n 0 = []"
| "CIDRMask_bytes n (Suc l) =
     (if 8 \<le> n then 0xff # CIDRMask_bytes (n - 8) l
      else (NOT (drop_bit n (0xff :: 8 word))) # CIDRMask_bytes 0 l)"

record IPNet =
  IP :: IP
  Mask :: "8 word list"

text \<open>
  \<open>net.ParseCIDR\<close>: address, slash, prefix length of all digits and at most the address
  width; the network is the address with the mask applied byte by byte. For an IPv4
  literal both have four bytes (\<open>IP.Mask\<close> strips the IPv4-mapped prefix when the mask
  has four bytes).
\<close>

definition ParseCIDR :: "(string \<Rightarrow> IP option) \<Rightarrow> string \<Rightarrow> IPNet option" where
  "ParseCIDR p6 s =
     (case cut_slash s of
        None \<Rightarrow> None
      | Some (addr, msk) \<Rightarrow>
          (case ParseAddr p6 addr of
             None \<Rightarrow> None
           | Some a \<Rightarrow>
               (let bytes = (case a of Addr4 b \<Rightarrow> b | Addr6 b \<Rightarrow> b);
                    bitlen = 8 * length bytes
                in case dtoi msk of
                     None \<Rightarrow> None
                   | Some (n, i) \<Rightarrow>
                       if i \<noteq> length msk \<or> bitlen < n then None
                       else (let m = CIDRMask_bytes n (length bytes)
                             in Some \<lparr>IP = map2 (AND) bytes m, Mask = m\<rparr>))))"

text \<open>
  \<open>IPMask.Size\<close> through \<open>simpleMaskLength\<close>: the number of leading one bits when
  the mask is ones followed by zeros, and \<open>(0, 0)\<close> when it is not.
  \<open>leading_ones\<close> is the inner loop \<open>for v&0x80 != 0 { n++; v <<= 1 }\<close>; eight rounds
  are all it can make, since eight shifts clear a byte.
\<close>

fun leading_ones :: "nat \<Rightarrow> 8 word \<Rightarrow> nat \<times> 8 word" where
  "leading_ones 0 v = (0, v)"
| "leading_ones (Suc k) v =
     (if v AND 0x80 \<noteq> 0
      then (let (n, v') = leading_ones k (push_bit 1 v) in (Suc n, v'))
      else (0, v))"

fun simpleMaskLength :: "8 word list \<Rightarrow> nat option" where
  "simpleMaskLength [] = Some 0"
| "simpleMaskLength (v # rest) =
     (if v = 0xff then map_option (\<lambda>n. 8 + n) (simpleMaskLength rest)
      else (let (n, v') = leading_ones 8 v
            in if v' \<noteq> 0 \<or> (\<exists>b \<in> set rest. b \<noteq> 0) then None else Some n))"

definition Mask_Size :: "8 word list \<Rightarrow> nat \<times> nat" where
  "Mask_Size m =
     (case simpleMaskLength m of None \<Rightarrow> (0, 0) | Some ones \<Rightarrow> (ones, 8 * length m))"

section \<open>The address pool (package util)\<close>

text \<open>
  \<open>increment\<close>: add one to the address, least significant byte first, carrying while
  a byte wraps to zero; all bytes \<open>ff\<close> wrap to all zero. A nil address, or one that
  \<open>To4\<close> refuses, gives nil.
\<close>

fun inc_bytes :: "8 word list \<Rightarrow> 8 word list" where
  "inc_bytes [] = []"
| "inc_bytes (b # bs) = (if b + 1 \<noteq> 0 then (b + 1) # bs else (b + 1) # inc_bytes bs)"

definition increment :: "IP option \<Rightarrow> IP option" where
  "increment x =
     (case x of None \<Rightarrow> None
      | Some ip \<Rightarrow> (case To4 ip of None \<Rightarrow> None | Some ip4 \<Rightarrow> Some (rev (inc_bytes (rev ip4)))))"

text \<open>
  The \<open>allocated\<close> map only ever holds the value \<open>true\<close>, so it is its set of keys,
  kept as a list without repetition: \<open>allocated[ip] = true\<close> is \<open>List.insert\<close>,
  \<open>delete\<close> is \<open>removeAll\<close>, a lookup is membership. Go's \<open>int\<close> is 64 bits wide; the
  counters stay below \<open>2 ^ 32 + 1\<close>, so they are unbounded integers here.
\<close>

record IPPool =
  networkCIDR :: string
  serverIP :: string
  allocated :: "string list"
  recycled :: "string list"
  nextIndex :: int
  firstUsable :: string
  lastUsable :: string
  totalUsable :: int

text \<open>\<open>int64(1) << shift\<close>, with the wrap-around of a 64-bit shift written out.\<close>

definition shl1_int64 :: "nat \<Rightarrow> int" where
  "shl1_int64 shift = (if shift < 63 then 2 ^ shift else if shift = 63 then - (2 ^ 63) else 0)"

definition NewIPPool :: "(string \<Rightarrow> IP option) \<Rightarrow> string \<Rightarrow> error + IPPool" where
  "NewIPPool p6 cidr =
     (case ParseCIDR p6 cidr of
        None \<Rightarrow> Inl ErrInvalidCIDR
      | Some ipnet \<Rightarrow>
          if To4 (IP ipnet) = None then Inl ErrOnlyIPv4
          else
            (let (ones, bits) = Mask_Size (Mask ipnet);
                 shift = bits - ones;
                 totalIPsInt = shl1_int64 shift
             in if 2 < totalIPsInt then
                  (let firstIP = increment (ParseIP (IP_String (Some (IP ipnet))));
                       first = IP_String firstIP;
                       lastIP = (increment ^^ nat (totalIPsInt - 1))
                                  (ParseIP (IP_String (Some (IP ipnet))));
                       last = IP_String lastIP
                   in Inr \<lparr>networkCIDR = cidr, serverIP = first, allocated = [],
                           recycled = [], nextIndex = 1, firstUsable = first,
                           lastUsable = last, totalUsable = totalIPsInt - 2\<rparr>)
                else Inl ErrAtLeast3UsableIPs))"

definition GetServerIP :: "IPPool \<Rightarrow> string" where
  "GetServerIP p = serverIP p"

definition AllocateNodeIP :: "IPPool \<Rightarrow> error + (string \<times> IPPool)" where
  "AllocateNodeIP p =
     (case recycled p of
        ip # rest \<Rightarrow>
          Inr (ip, p\<lparr>recycled := rest, allocated := List.insert ip (allocated p)\<rparr>)
      | [] \<Rightarrow>
          if totalUsable p \<le> nextIndex p then Inl ErrNoAvailableIPs
          else
            (let baseIP = (increment ^^ nat (nextIndex p)) (ParseIP (firstUsable p));
                 ip = IP_String baseIP
             in Inr (ip, p\<lparr>nextIndex := nextIndex p + 1,
                            allocated := List.insert ip (allocated p)\<rparr>)))"

definition MarkIPAllocated :: "IPPool \<Rightarrow> string \<Rightarrow> error + IPPool" where
  "MarkIPAllocated p ip =
     (if ip = [] then Inl ErrIPEmpty
      else if ip \<in> set (allocated p) then Inl (ErrIPAlreadyAllocated ip)
      else Inr (p\<lparr>allocated := List.insert ip (allocated p)\<rparr>))"

text \<open>
  The inner loop of \<open>SyncNextIndex\<close>: walk from the first usable address until the
  printed address equals the allocated one or the index reaches \<open>totalUsable\<close>.
\<close>

function index_loop :: "string \<Rightarrow> int \<Rightarrow> IP option \<Rightarrow> int \<Rightarrow> int" where
  "index_loop allocatedIP usable currentIP index =
     (if IP_String currentIP \<noteq> allocatedIP \<and> index < usable
      then index_loop allocatedIP usable (increment currentIP) (index + 1)
      else index)"
  by pat_completeness auto
termination
  by (relation "measure (\<lambda>(a, usable, c, index). nat (usable - index))") auto

declare index_loop.simps [simp del]

definition SyncNextIndex :: "IPPool \<Rightarrow> IPPool" where
  "SyncNextIndex p =
     (let maxIndex =
            fold (\<lambda>allocatedIP maxIndex.
                    if allocatedIP = serverIP p then maxIndex
                    else (let index = index_loop allocatedIP (totalUsable p)
                                        (ParseIP (firstUsable p)) 0
                          in if maxIndex < index then index else maxIndex))
                 (allocated p) 0
      in p\<lparr>nextIndex := maxIndex + 1\<rparr>)"

definition ReleaseNodeIP :: "IPPool \<Rightarrow> string \<Rightarrow> error + IPPool" where
  "ReleaseNodeIP p ip =
     (if ip = serverIP p then Inl ErrCannotReleaseServerIP
      else if ip \<notin> set (allocated p) then Inl (ErrIPNotAllocated ip)
      else Inr (p\<lparr>allocated := removeAll ip (allocated p), recycled := recycled p @ [ip]\<rparr>))"

record IPPoolState =
  NetworkCIDR :: string
  ServerIP :: string
  Allocated :: "string list"
  Recycled :: "string list"
  NextIndex :: int

definition GetState :: "IPPool \<Rightarrow> IPPoolState" where
  "GetState p =
     \<lparr>NetworkCIDR = networkCIDR p, ServerIP = serverIP p,
      Allocated = filter (\<lambda>ip. ip \<noteq> serverIP p) (allocated p),
      Recycled = recycled p, NextIndex = nextIndex p\<rparr>"

definition RestoreIPPool :: "(string \<Rightarrow> IP option) \<Rightarrow> IPPoolState \<Rightarrow> error + IPPool" where
  "RestoreIPPool p6 state =
     (case NewIPPool p6 (NetworkCIDR state) of
        Inl e \<Rightarrow> Inl e
      | Inr pool \<Rightarrow>
          Inr (pool\<lparr>allocated := fold List.insert (Allocated state)
                                    (List.insert (ServerIP state) (allocated pool)),
                    recycled := Recycled state,
                    nextIndex := NextIndex state\<rparr>))"

text \<open>The number an address stands for: big-endian, \<open>le_val\<close> on the reversed bytes.\<close>

primrec le_val :: "8 word list \<Rightarrow> nat" where
  "le_val [] = 0"
| "le_val (b # bs) = unat b + 256 * le_val bs"

definition ip_val :: "IP \<Rightarrow> nat" where
  "ip_val ip = le_val (rev ip)"

section \<open>Notions for stating the pool's properties\<close>

text \<open>
  The address at index \<open>i\<close>, counted from the first usable address as \<open>AllocateNodeIP\<close>
  and \<open>SyncNextIndex\<close> count: index 0 is the server's address.
\<close>

definition addr_at :: "IPPool \<Rightarrow> nat \<Rightarrow> string" where
  "addr_at p i = IP_String ((increment ^^ i) (ParseIP (firstUsable p)))"

text \<open>An address is in range when it is one of the usable addresses of the block.\<close>

definition in_range :: "IPPool \<Rightarrow> string \<Rightarrow> bool" where
  "in_range p ip = (\<exists>i \<in> {0 ..< nat (totalUsable p)}. ip = addr_at p i)"

text \<open>
  What \<open>NewIPPool\<close> establishes and no operation changes: the first usable address is a
  dotted IPv4 address, it is the server's, and the block has between 2 and \<open>2 ^ 32 - 2\<close>
  usable addresses.
\<close>

definition pool_wf :: "IPPool \<Rightarrow> bool" where
  "pool_wf p =
     ((case ParseIP (firstUsable p) of None \<Rightarrow> False | Some ip \<Rightarrow> dotted ip = firstUsable p) \<and>
      serverIP p = firstUsable p \<and> 2 \<le> totalUsable p \<and> totalUsable p \<le> 2 ^ 32 - 2)"

text \<open>
  The invariant of allocation: the cursor is past every address handed out, and the
  recycle queue holds each address once and no allocated one.
\<close>

definition pool_inv :: "IPPool \<Rightarrow> bool" where
  "pool_inv p =
     (pool_wf p \<and> 1 \<le> nextIndex p \<and> nextIndex p \<le> totalUsable p \<and>
      distinct (recycled p) \<and> set (recycled p) \<inter> set (allocated p) = {} \<and>
      serverIP p \<notin> set (recycled p) \<and>
      (\<forall>ip \<in> set (allocated p) \<union> set (recycled p).
         \<exists>i \<in> {0 ..< nat (nextIndex p)}. ip = addr_at p i))"

text \<open>
  A sequence of calls on one pool. \<open>run_ops\<close> threads the pool and keeps the list of
  live allocations: a successful allocate adds its result, a successful release removes
  one occurrence of the released address. A failed call leaves the pool as it was, as
  both Go functions return before they change anything.
\<close>

datatype pool_op = Allocate | Release string

fun step :: "IPPool \<times> string list \<Rightarrow> pool_op \<Rightarrow> IPPool \<times> string list" where
  "step (p, live) Allocate =
     (case AllocateNodeIP p of Inl e \<Rightarrow> (p, live) | Inr (ip, p') \<Rightarrow> (p', ip # live))"
| "step (p, live) (Release ip) =
     (case ReleaseNodeIP p ip of Inl e \<Rightarrow> (p, live) | Inr p' \<Rightarrow> (p', remove1 ip live))"

definition run_ops :: "pool_op list \<Rightarrow> IPPool \<times> string list \<Rightarrow> IPPool \<times> string list" where
  "run_ops ops s = foldl step s ops"

text \<open>\<open>n\<close> allocate calls in a row, with the result of each.\<close>

fun allocs :: "nat \<Rightarrow> IPPool \<Rightarrow> (error + string) list \<times> IPPool" where
  "allocs 0 p = ([], p)"
| "allocs (Suc n) p =
     (case AllocateNodeIP p of
        Inl e \<Rightarrow> (let (rs, p') = allocs n p in (Inl e # rs, p'))
      | Inr (ip, p1) \<Rightarrow> (let (rs, p') = allocs n p1 in (Inr ip # rs, p')))"

text \<open>Releasing a list of addresses in order, stopping at the first failure.\<close>

fun release_all :: "string list \<Rightarrow> IPPool \<Rightarrow> error + IPPool" where
  "release_all [] p = Inr p"
| "release_all (ip # ips) p =
     (case ReleaseNodeIP p ip of Inl e \<Rightarrow> Inl e | Inr p' \<Rightarrow> release_all ips p')"

definition release_then_allocate :: "IPPool \<Rightarrow> string \<Rightarrow> error + string" where
  "release_then_allocate p a =
     (case ReleaseNodeIP p a of
        Inl e \<Rightarrow> Inl e
      | Inr p' \<Rightarrow> (case AllocateNodeIP p' of Inl e \<Rightarrow> Inl e | Inr (ip, p'') \<Rightarrow> Inr ip))"

text \<open>
  Marking the addresses of persisted records as \<open>ensureIPPool\<close> does for the members:
  a failed mark is reported and skipped.
\<close>

definition mark_all :: "string list \<Rightarrow> IPPool \<Rightarrow> IPPool" where
  "mark_all ips p =
     fold (\<lambda>ip q. case MarkIPAllocated q ip of Inl e \<Rightarrow> q | Inr q' \<Rightarrow> q') ips p"

text \<open>
  The pool states that the operations reach from the pool of a block, its snapshot
  round trip included.
\<close>

inductive reachable :: "(string \<Rightarrow> IP option) \<Rightarrow> string \<Rightarrow> IPPool \<Rightarrow> bool"
  for p6 :: "string \<Rightarrow> IP option" and cidr :: string where
  r_new: "NewIPPool p6 cidr = Inr p \<Longrightarrow> reachable p6 cidr p"
| r_allocate: "reachable p6 cidr p \<Longrightarrow> AllocateNodeIP p = Inr (ip, p') \<Longrightarrow> reachable p6 cidr p'"
| r_release: "reachable p6 cidr p \<Longrightarrow> ReleaseNodeIP p ip = Inr p' \<Longrightarrow> reachable p6 cidr p'"
| r_mark: "reachable p6 cidr p \<Longrightarrow> MarkIPAllocated p ip = Inr p' \<Longrightarrow> reachable p6 cidr p'"
| r_sync: "reachable p6 cidr p \<Longrightarrow> reachable p6 cidr (SyncNextIndex p)"
| r_restore: "reachable p6 cidr p \<Longrightarrow> RestoreIPPool p6 (GetState p) = Inr p' \<Longrightarrow>
              reachable p6 cidr p'"

text \<open>The number of addresses of a parsed block, network and broadcast address included.\<close>

definition block_total :: "IPNet \<Rightarrow> nat" where
  "block_total ipnet = (let (ones, bits) = Mask_Size (Mask ipnet) in 2 ^ (bits - ones))"

text \<open>An IPv6 reader that knows no literal, for examples with IPv4 blocks.\<close>

definition no_ipv6 :: "string \<Rightarrow> IP option" where
  "no_ipv6 s = None"

text \<open>The pool of the block \<open>10.0.0.0/24\<close>, and a state that three calls reach from it.\<close>

definition pool24 :: IPPool where
  "pool24 =
     \<lparr>networkCIDR = ''10.0.0.0/24'', serverIP = ''10.0.0.1'', allocated = [],
      recycled = [], nextIndex = 1, firstUsable = ''10.0.0.1'',
      lastUsable = ''10.0.0.255'', totalUsable = 254\<rparr>"

definition pool24_one_recycled :: IPPool where
  "pool24_one_recycled =
     \<lparr>networkCIDR = ''10.0.0.0/24'', serverIP = ''10.0.0.1'', allocated = [''10.0.0.3''],
      recycled = [''10.0.0.2''], nextIndex = 3, firstUsable = ''10.0.0.1'',
      lastUsable = ''10.0.0.255'', totalUsable = 254\<rparr>"

definition pool24_two_allocated :: IPPool where
  "pool24_two_allocated =
     \<lparr>networkCIDR = ''10.0.0.0/24'', serverIP = ''10.0.0.1'',
      allocated = [''10.0.0.3'', ''10.0.0.2''], recycled = [], nextIndex = 3,
      firstUsable = ''10.0.0.1'', lastUsable = ''10.0.0.255'', totalUsable = 254\<rparr>"

definition pool24_two_recycled :: IPPool where
  "pool24_two_recycled =
     \<lparr>networkCIDR = ''10.0.0.0/24'', serverIP = ''10.0.0.1'',
      allocated = [], recycled = [''10.0.0.3'', ''10.0.0.2''], nextIndex = 3,
      firstUsable = ''10.0.0.1'', lastUsable = ''10.0.0.255'', totalUsable = 254\<rparr>"

text \<open>
  What every reachable state keeps of the pool \<open>p0\<close> it started from: the server's
  address stays what it was and never enters the recycle queue, and the cursor stays
  at 1 or above.
\<close>

definition server_kept :: "IPPool \<Rightarrow> IPPool \<Rightarrow> bool" where
  "server_kept p0 p =
     (pool_wf p \<and> 1 \<le> nextIndex p \<and> serverIP p \<notin> set (recycled p) \<and>
      networkCIDR p = networkCIDR p0 \<and> serverIP p = serverIP p0)"


definition pool24_one_allocated :: IPPool where
  "pool24_one_allocated =
     \<lparr>networkCIDR = ''10.0.0.0/24'', serverIP = ''10.0.0.1'',
      allocated = [''10.0.0.2''], recycled = [], nextIndex = 2,
      firstUsable = ''10.0.0.1'', lastUsable = ''10.0.0.255'', totalUsable = 254\<rparr>"

section \<open>The storage layer (wedev/storage.go)\<close>

text \<open>
  A bbolt bucket is a map from byte-string keys to values that is walked in key order:
  an association list sorted by key, each key once. The values are kept decoded
  (the records themselves instead of their JSON; strings are taken to survive the JSON
  round trip). \<open>Put\<close> refuses an empty key and a key of more than 32768 bytes (the
  value size limit of 2 GB is not modelled); \<open>Delete\<close> of a missing key does nothing.
  The same sorted lists stand for Go maps whose keys the code sorts before use.
\<close>

type_synonym 'v bucket = "(string \<times> 'v) list"

fun bucket_insert :: "string \<Rightarrow> 'v \<Rightarrow> 'v bucket \<Rightarrow> 'v bucket" where
  "bucket_insert k v [] = [(k, v)]"
| "bucket_insert k v ((k', v') # b) =
     (if k = k' then (k, v) # b
      else if k < k' then (k, v) # (k', v') # b
      else (k', v') # bucket_insert k v b)"

definition bucket_put :: "'v bucket \<Rightarrow> string \<Rightarrow> 'v \<Rightarrow> error + 'v bucket" where
  "bucket_put b k v =
     (if k = [] then Inl ErrKeyRequired
      else if 32768 < length k then Inl ErrKeyTooLarge
      else Inr (bucket_insert k v b))"

definition bucket_get :: "'v bucket \<Rightarrow> string \<Rightarrow> 'v option" where
  "bucket_get b k = map_of b k"

definition bucket_delete :: "'v bucket \<Rightarrow> string \<Rightarrow> 'v bucket" where
  "bucket_delete b k = filter (\<lambda>(k', v). k' \<noteq> k) b"

text \<open>
  Times are numbers here; \<open>time.Now()\<close> and \<open>uuid.New()\<close> are read by the caller of
  the model and passed in (\<open>now\<close>, \<open>uuid\<close>).
\<close>

type_synonym time = nat

record VirtualNetwork =
  net_ID :: string
  net_Name :: string
  net_CIDR :: string
  net_CreatedAt :: time

record Server =
  srv_ID :: string
  srv_NetworkID :: string
  srv_Name :: string
  srv_PublicAddress :: string
  srv_Port :: int
  srv_VirtualIP :: string
  srv_PrivateKey :: string
  srv_PublicKey :: string
  srv_CreatedAt :: time
  srv_UpdatedAt :: time

type_synonym NodeType = string

definition NodeTypePeer :: NodeType where
  "NodeTypePeer = ''peer''"

definition NodeTypeRoute :: NodeType where
  "NodeTypeRoute = ''route''"

record Node =
  node_ID :: string
  node_NetworkID :: string
  node_Name :: string
  node_PublicAddress :: string
  node_Port :: int
  node_VirtualIP :: string
  node_Type :: NodeType
  node_PrivateKey :: string
  node_PublicKey :: string
  node_CreatedAt :: time
  node_UpdatedAt :: time

record ConfigVersion =
  cfg_ID :: string
  cfg_NetworkID :: string
  cfg_Version :: int
  cfg_ContentHash :: string
  cfg_Configs :: "string bucket"
  cfg_CreatedAt :: time

text \<open>The database: one field for each bucket that \<open>NewStorageManager\<close> creates.\<close>

record DB =
  networks :: "VirtualNetwork bucket"
  networks_by_name :: "string bucket"
  servers :: "Server bucket"
  servers_by_name :: "string bucket"
  nodes :: "Node bucket"
  nodes_by_name :: "string bucket"
  configs :: "ConfigVersion bucket"
  configs_by_version :: "string bucket"
  ip_pools :: "IPPoolState bucket"

definition empty_DB :: DB where
  "empty_DB =
     \<lparr>networks = [], networks_by_name = [], servers = [], servers_by_name = [], nodes = [],
      nodes_by_name = [], configs = [], configs_by_version = [], ip_pools = []\<rparr>"

text \<open>
  Every operation is one transaction: it returns the new database, or an error and
  then the database stays as it was (bbolt rolls the transaction back).
\<close>

definition sm_CreateNetwork ::
  "DB \<Rightarrow> string \<Rightarrow> time \<Rightarrow> string \<Rightarrow> string \<Rightarrow> error + (VirtualNetwork \<times> DB)" where
  "sm_CreateNetwork db uuid now name cidr =
     (if bucket_get (networks_by_name db) name \<noteq> None then Inl (ErrNetworkNameExists name)
      else
        (let network = \<lparr>net_ID = uuid, net_Name = name, net_CIDR = cidr, net_CreatedAt = now\<rparr>
         in case bucket_put (networks db) uuid network of
              Inl e \<Rightarrow> Inl (ErrWrap ''failed to save network'' e)
            | Inr nb \<Rightarrow>
                (case bucket_put (networks_by_name db) name uuid of
                   Inl e \<Rightarrow> Inl (ErrWrap ''failed to save name index'' e)
                 | Inr ib \<Rightarrow> Inr (network, db\<lparr>networks := nb, networks_by_name := ib\<rparr>))))"

definition sm_GetNetworkByName :: "DB \<Rightarrow> string \<Rightarrow> error + VirtualNetwork" where
  "sm_GetNetworkByName db name =
     (case bucket_get (networks_by_name db) name of
        None \<Rightarrow> Inl (ErrNetworkNotFound name)
      | Some id' \<Rightarrow>
          (case bucket_get (networks db) id' of
             None \<Rightarrow> Inl ErrNetworkDataNotFound
           | Some network \<Rightarrow> Inr network))"

definition sm_CreateServer ::
  "DB \<Rightarrow> string \<Rightarrow> time \<times> time \<Rightarrow> string \<Rightarrow> string \<Rightarrow> string \<Rightarrow> int \<Rightarrow> string \<Rightarrow> string \<Rightarrow> string
   \<Rightarrow> error + (Server \<times> DB)" where
  "sm_CreateServer db uuid now networkID name publicAddress port virtualIP privateKey publicKey =
     (if bucket_get (networks db) networkID = None then Inl (ErrNetworkNotFound networkID)
      else if fold (\<lambda>(k, s) found. if srv_NetworkID s = networkID then True else found)
                (servers db) False
      then Inl (ErrServerExists networkID)
      else
        (let nameKey = networkID @ '':'' @ name in
         if bucket_get (servers_by_name db) nameKey \<noteq> None then Inl (ErrServerNameExists name)
         else
           (let server = \<lparr>srv_ID = uuid, srv_NetworkID = networkID, srv_Name = name,
                           srv_PublicAddress = publicAddress, srv_Port = port,
                           srv_VirtualIP = virtualIP, srv_PrivateKey = privateKey,
                           srv_PublicKey = publicKey, srv_CreatedAt = fst now,
                           srv_UpdatedAt = snd now\<rparr>
            in case bucket_put (servers db) uuid server of
                 Inl e \<Rightarrow> Inl (ErrWrap ''failed to save server'' e)
               | Inr sb \<Rightarrow>
                   (case bucket_put (servers_by_name db) nameKey uuid of
                      Inl e \<Rightarrow> Inl (ErrWrap ''failed to save name index'' e)
                    | Inr ib \<Rightarrow> Inr (server, db\<lparr>servers := sb, servers_by_name := ib\<rparr>)))))"

text \<open>\<open>GetServerByNetworkID\<close>: the walk does not stop at a match, so the last match
  in key order is returned.\<close>

definition sm_GetServerByNetworkID :: "DB \<Rightarrow> string \<Rightarrow> error + Server" where
  "sm_GetServerByNetworkID db networkID =
     (case fold (\<lambda>(k, s) server. if srv_NetworkID s = networkID then Some s else server)
             (servers db) None of
        None \<Rightarrow> Inl (ErrNoServerFound networkID)
      | Some server \<Rightarrow> Inr server)"

text \<open>\<open>DeleteServer\<close>: the name index is keyed by \<open>networkID:name\<close>, and the key
  deleted from it here is \<open>serverName\<close>, as in the source.\<close>

definition sm_DeleteServer :: "DB \<Rightarrow> string \<Rightarrow> error + DB" where
  "sm_DeleteServer db networkID =
     (let (serverID, serverName) =
            fold (\<lambda>(k, server) (serverID, serverName).
                    if srv_NetworkID server = networkID then (k, srv_Name server)
                    else (serverID, serverName))
                 (servers db) ([], [])
      in if serverID = [] then Inl ErrServerNotFoundForNetwork
         else Inr (db\<lparr>servers := bucket_delete (servers db) serverID,
                       servers_by_name := bucket_delete (servers_by_name db) serverName\<rparr>))"

definition sm_CreateNode ::
  "DB \<Rightarrow> string \<Rightarrow> time \<times> time \<Rightarrow> string \<Rightarrow> string \<Rightarrow> string \<Rightarrow> int \<Rightarrow> string \<Rightarrow> NodeType \<Rightarrow> string
   \<Rightarrow> string \<Rightarrow> error + (Node \<times> DB)" where
  "sm_CreateNode db uuid now networkID name publicAddress port virtualIP nodeType privateKey
     publicKey =
     (if bucket_get (networks db) networkID = None then Inl (ErrNetworkNotFound networkID)
      else
        (let nameKey = networkID @ '':'' @ name in
         if bucket_get (nodes_by_name db) nameKey \<noteq> None then Inl (ErrNodeNameExists name)
         else
           (let node = \<lparr>node_ID = uuid, node_NetworkID = networkID, node_Name = name,
                         node_PublicAddress = publicAddress, node_Port = port,
                         node_VirtualIP = virtualIP, node_Type = nodeType,
                         node_PrivateKey = privateKey, node_PublicKey = publicKey,
                         node_CreatedAt = fst now, node_UpdatedAt = snd now\<rparr>
            in case bucket_put (nodes db) uuid node of
                 Inl e \<Rightarrow> Inl (ErrWrap ''failed to save node'' e)
               | Inr nb \<Rightarrow>
                   (case bucket_put (nodes_by_name db) nameKey uuid of
                      Inl e \<Rightarrow> Inl (ErrWrap ''failed to save name index'' e)
                    | Inr ib \<Rightarrow> Inr (node, db\<lparr>nodes := nb, nodes_by_name := ib\<rparr>)))))"

definition sm_GetNodeByName :: "DB \<Rightarrow> string \<Rightarrow> string \<Rightarrow> error + Node" where
  "sm_GetNodeByName db networkID name =
     (case bucket_get (nodes_by_name db) (networkID @ '':'' @ name) of
        None \<Rightarrow> Inl (ErrNodeNotFound name)
      | Some id' \<Rightarrow>
          (case bucket_get (nodes db) id' of
             None \<Rightarrow> Inl ErrNodeDataNotFound
           | Some node \<Rightarrow> Inr node))"

definition sm_ListNodesByNetworkID :: "DB \<Rightarrow> string \<Rightarrow> Node list" where
  "sm_ListNodesByNetworkID db networkID =
     map snd (filter (\<lambda>(k, node). node_NetworkID node = networkID) (nodes db))"

definition sm_DeleteNode :: "DB \<Rightarrow> string \<Rightarrow> string \<Rightarrow> error + DB" where
  "sm_DeleteNode db networkID name =
     (let nameKey = networkID @ '':'' @ name in
      case bucket_get (nodes_by_name db) nameKey of
        None \<Rightarrow> Inl (ErrNodeNotFound name)
      | Some id' \<Rightarrow>
          Inr (db\<lparr>nodes := bucket_delete (nodes db) id',
                   nodes_by_name := bucket_delete (nodes_by_name db) nameKey\<rparr>))"

text \<open>\<open>SaveConfigVersion\<close> of the storage: the next version number is found in
  one walk, starting from 1 (Go's \<open>int\<close> is taken as unbounded).\<close>

definition next_version :: "ConfigVersion bucket \<Rightarrow> string \<Rightarrow> int" where
  "next_version b networkID =
     fold (\<lambda>(k, c) nextVer.
             if cfg_NetworkID c = networkID \<and> nextVer \<le> cfg_Version c then cfg_Version c + 1
             else nextVer)
          b 1"

definition sm_SaveConfigVersion ::
  "DB \<Rightarrow> string \<Rightarrow> time \<Rightarrow> string \<Rightarrow> string \<Rightarrow> string bucket \<Rightarrow> error + (ConfigVersion \<times> DB)" where
  "sm_SaveConfigVersion db uuid now networkID contentHash cfgs =
     (let config = \<lparr>cfg_ID = uuid, cfg_NetworkID = networkID,
                     cfg_Version = next_version (configs db) networkID,
                     cfg_ContentHash = contentHash, cfg_Configs = cfgs, cfg_CreatedAt = now\<rparr>
      in case bucket_put (configs db) uuid config of
           Inl e \<Rightarrow> Inl (ErrWrap ''failed to save config'' e)
         | Inr cb \<Rightarrow> Inr (config, db\<lparr>configs := cb\<rparr>))"

text \<open>\<open>GetLatestConfigVersion\<close>: the walk keeps the first configuration of the
  highest version.\<close>

definition latest_config :: "ConfigVersion bucket \<Rightarrow> string \<Rightarrow> ConfigVersion option" where
  "latest_config b networkID =
     fold (\<lambda>(k, config) latest.
             if cfg_NetworkID config = networkID then
               (case latest of
                  None \<Rightarrow> Some config
                | Some l \<Rightarrow> if cfg_Version l < cfg_Version config then Some config else latest)
             else latest)
          b None"

definition sm_GetLatestConfigVersion :: "DB \<Rightarrow> string \<Rightarrow> error + ConfigVersion" where
  "sm_GetLatestConfigVersion db networkID =
     (case latest_config (configs db) networkID of
        None \<Rightarrow> Inl (ErrNoConfigVersion networkID)
      | Some latest \<Rightarrow> Inr latest)"

definition sm_ListConfigVersions :: "DB \<Rightarrow> string \<Rightarrow> ConfigVersion list" where
  "sm_ListConfigVersions db networkID =
     sort_key cfg_Version
       (map snd (filter (\<lambda>(k, config). cfg_NetworkID config = networkID) (configs db)))"

definition sm_SaveIPPoolState :: "DB \<Rightarrow> string \<Rightarrow> IPPoolState \<Rightarrow> error + DB" where
  "sm_SaveIPPoolState db networkID state =
     (case bucket_put (ip_pools db) networkID state of
        Inl e \<Rightarrow> Inl e
      | Inr pb \<Rightarrow> Inr (db\<lparr>ip_pools := pb\<rparr>))"

definition sm_GetIPPoolState :: "DB \<Rightarrow> string \<Rightarrow> error + IPPoolState" where
  "sm_GetIPPoolState db networkID =
     (case bucket_get (ip_pools db) networkID of
        None \<Rightarrow> Inl (ErrIPPoolStateNotFound networkID)
      | Some state \<Rightarrow> Inr state)"

text \<open>A database with one network, then with its hub, then after the hub's deletion.\<close>

definition db_net1 :: DB where
  "db_net1 =
     empty_DB\<lparr>networks := [(''net-1'', \<lparr>net_ID = ''net-1'', net_Name = ''n1'',
                                          net_CIDR = ''10.0.0.0/24'', net_CreatedAt = 100\<rparr>)],
               networks_by_name := [(''n1'', ''net-1'')]\<rparr>"

definition hub_s1 :: Server where
  "hub_s1 =
     \<lparr>srv_ID = ''srv-1'', srv_NetworkID = ''net-1'', srv_Name = ''s1'',
      srv_PublicAddress = ''192.0.2.1'', srv_Port = 51820, srv_VirtualIP = ''10.0.0.1'',
      srv_PrivateKey = ''hub-private'', srv_PublicKey = ''hub-public'', srv_CreatedAt = 101,
      srv_UpdatedAt = 102\<rparr>"

definition db_hub :: DB where
  "db_hub = db_net1\<lparr>servers := [(''srv-1'', hub_s1)],
                     servers_by_name := [(''net-1:s1'', ''srv-1'')]\<rparr>"

definition db_hub_deleted :: DB where
  "db_hub_deleted = db_net1\<lparr>servers := [], servers_by_name := [(''net-1:s1'', ''srv-1'')]\<rparr>"

section \<open>The configuration generator\<close>

definition nl :: string where
  "nl = [CHR 0x0A]"

text \<open>\<open>util.FormatEndpoint\<close>: \<open>fmt.Sprintf("%s:%d", address, port)\<close>.\<close>

definition FormatEndpoint :: "string \<Rightarrow> int \<Rightarrow> string" where
  "FormatEndpoint address port = address @ '':'' @ itoa port"

text \<open>
  The two generators write into a string builder; here the builder is the string
  written so far, and each loop is a \<open>fold\<close> over the nodes in their order.
\<close>

definition generateServerConfig :: "VirtualNetwork \<Rightarrow> Server \<Rightarrow> Node list \<Rightarrow> string" where
  "generateServerConfig network server nodes' =
     (let config = ''[Interface]'' @ nl;
          config = config @ ''PrivateKey = '' @ srv_PrivateKey server @ nl;
          config = config @ ''Address = '' @ srv_VirtualIP server @ ''/32'' @ nl;
          config = config @ ''ListenPort = '' @ itoa (srv_Port server) @ nl;
          config = config @ ''PostUp = sysctl -w net.ipv4.ip_forward=1'' @ nl;
          config = config @ ''PostDown = sysctl -w net.ipv4.ip_forward=0'' @ nl
      in fold (\<lambda>node config.
                 (let config = config @ nl @ ''[Peer]'' @ nl;
                      config = config @ ''PublicKey = '' @ node_PublicKey node @ nl;
                      config = config @ ''AllowedIPs = '' @ node_VirtualIP node @ ''/32'' @ nl
                  in if node_Type node = NodeTypePeer \<and> node_PublicAddress node \<noteq> []
                     then config @ ''Endpoint = '' @
                          FormatEndpoint (node_PublicAddress node) (node_Port node) @ nl
                     else config))
              nodes' config)"

definition generateNodeConfig ::
  "VirtualNetwork \<Rightarrow> Server \<Rightarrow> Node \<Rightarrow> Node list \<Rightarrow> string" where
  "generateNodeConfig network server node allNodes =
     (let config = ''[Interface]'' @ nl;
          config = config @ ''PrivateKey = '' @ node_PrivateKey node @ nl;
          config = config @ ''Address = '' @ node_VirtualIP node @ ''/32'' @ nl;
          config = config @ ''ListenPort = '' @ itoa (node_Port node) @ nl;
          config = config @ nl @ ''[Peer]'' @ nl;
          config = config @ ''PublicKey = '' @ srv_PublicKey server @ nl;
          config = config @ ''AllowedIPs = '' @ net_CIDR network @ nl;
          config = (if srv_PublicAddress server \<noteq> []
                    then config @ ''Endpoint = '' @
                         FormatEndpoint (srv_PublicAddress server) (srv_Port server) @ nl
                    else config);
          config =
            (if node_Type node = NodeTypePeer then
               fold (\<lambda>otherNode config.
                       if node_ID otherNode \<noteq> node_ID node \<and> node_Type otherNode = NodeTypePeer
                       then
                         (let config = config @ nl @ ''[Peer]'' @ nl;
                              config = config @ ''PublicKey = '' @ node_PublicKey otherNode @ nl;
                              config = config @ ''AllowedIPs = '' @ node_VirtualIP otherNode @
                                       ''/32'' @ nl
                          in if node_PublicAddress otherNode \<noteq> []
                             then config @ ''Endpoint = '' @
                                  FormatEndpoint (node_PublicAddress otherNode)
                                    (node_Port otherNode) @ nl
                             else config)
                       else config)
                    allNodes config
             else config);
          config =
            (if node_Type node = NodeTypeRoute then
               fold (\<lambda>otherNode config.
                       if node_Type otherNode = NodeTypePeer
                       then
                         (let config = config @ nl @ ''[Peer]'' @ nl;
                              config = config @ ''PublicKey = '' @ node_PublicKey otherNode @ nl;
                              config = config @ ''AllowedIPs = '' @ node_VirtualIP otherNode @
                                       ''/32'' @ nl
                          in if node_PublicAddress otherNode \<noteq> []
                             then config @ ''Endpoint = '' @
                                  FormatEndpoint (node_PublicAddress otherNode)
                                    (node_Port otherNode) @ nl
                             else config)
                       else config)
                    allNodes config
             else config)
      in config)"

text \<open>
  \<open>calculateConfigHash\<close>: the names in sorted order, each followed by a colon and
  its text, hashed. SHA-256 with hex encoding is the parameter \<open>sha\<close>. The map of
  names to texts is a list sorted by name, so it is walked as it stands.
\<close>

definition calculateConfigHash :: "(string \<Rightarrow> string) \<Rightarrow> string bucket \<Rightarrow> string" where
  "calculateConfigHash sha cfgs =
     sha (fold (\<lambda>(name, text) combined. combined @ name @ '':'' @ text) cfgs [])"

definition GenerateConfigs ::
  "(string \<Rightarrow> string) \<Rightarrow> DB \<Rightarrow> string \<Rightarrow> error + (string bucket \<times> string)" where
  "GenerateConfigs sha db networkName =
     (case sm_GetNetworkByName db networkName of
        Inl e \<Rightarrow> Inl e
      | Inr network \<Rightarrow>
          (case sm_GetServerByNetworkID db (net_ID network) of
             Inl e \<Rightarrow> Inl ErrNoServerInNetwork
           | Inr server \<Rightarrow>
               (let nodes' = sm_ListNodesByNetworkID db (net_ID network);
                    serverConfig = generateServerConfig network server nodes';
                    nodeConfigs =
                      fold (\<lambda>node m. bucket_insert (node_Name node)
                                         (generateNodeConfig network server node nodes') m)
                           nodes' [];
                    allConfigs = bucket_insert (srv_Name server) serverConfig [];
                    allConfigs = fold (\<lambda>(name, config) m. bucket_insert name config m)
                                   nodeConfigs allConfigs;
                    contentHash = calculateConfigHash sha allConfigs
                in Inr (allConfigs, contentHash))))"

text \<open>\<open>SaveConfigVersion\<close> of the generator: the configuration and whether it is
  new, with the database after the call.\<close>

definition wcg_SaveConfigVersion ::
  "(string \<Rightarrow> string) \<Rightarrow> DB \<Rightarrow> string \<Rightarrow> time \<Rightarrow> string \<Rightarrow> error + ((ConfigVersion \<times> bool) \<times> DB)"
  where
  "wcg_SaveConfigVersion sha db uuid now networkName =
     (case GenerateConfigs sha db networkName of
        Inl e \<Rightarrow> Inl e
      | Inr (cfgs, currentHash) \<Rightarrow>
          (case sm_GetNetworkByName db networkName of
             Inl e \<Rightarrow> Inl e
           | Inr network \<Rightarrow>
               (let unchanged =
                      (case sm_GetLatestConfigVersion db (net_ID network) of
                         Inl e \<Rightarrow> None
                       | Inr latest \<Rightarrow>
                           if cfg_ContentHash latest = currentHash then Some latest else None)
                in case unchanged of
                     Some latest \<Rightarrow> Inr ((latest, False), db)
                   | None \<Rightarrow>
                       (case sm_SaveConfigVersion db uuid now (net_ID network) currentHash cfgs of
                          Inl e \<Rightarrow> Inl e
                        | Inr (version, db') \<Rightarrow> Inr ((version, True), db')))))"

section \<open>The topology manager\<close>

text \<open>
  The validator is an interface of three checks, each returning an error or nothing;
  the manager holds one. \<open>DefaultIPValidator\<close> is the implementation of package util
  (its \<open>net.ParseIP\<close> reads IPv6 literals too, so it takes the IPv6 reader).
\<close>

record IPValidator =
  IsValidNetworkName :: "string \<Rightarrow> error option"
  IsValidCIDR :: "string \<Rightarrow> error option"
  IsValidPublicAddress :: "string \<Rightarrow> error option"

definition is_letter :: "char \<Rightarrow> bool" where
  "is_letter c =
     ((97 \<le> (of_char c :: nat) \<and> (of_char c :: nat) \<le> 122) \<or>
      (65 \<le> (of_char c :: nat) \<and> (of_char c :: nat) \<le> 90))"

definition DefaultIPValidator :: "(string \<Rightarrow> IP option) \<Rightarrow> IPValidator" where
  "DefaultIPValidator p6 =
     \<lparr>IsValidNetworkName = (\<lambda>name.
        if name = [] then Some (ErrValidation ''network name cannot be empty'')
        else if \<not> (is_letter (hd name) \<and> list_all (\<lambda>c. is_letter c \<or> is_digit c) (tl name))
        then Some (ErrValidation
               ''network name must start with a letter and contain only alphanumeric characters'')
        else None),
      IsValidCIDR = (\<lambda>cidr.
        if ParseCIDR p6 cidr = None then Some (ErrValidation ''invalid CIDR notation'') else None),
      IsValidPublicAddress = (\<lambda>addr.
        if addr = [] then Some (ErrValidation ''public address cannot be empty'')
        else if ParseAddr p6 addr \<noteq> None then None
        else if CHR '' '' \<in> set addr
        then Some (ErrValidation ''public address cannot contain spaces'')
        else if CHR ''.'' \<notin> set addr \<and> addr \<noteq> ''localhost''
        then Some (ErrValidation ''public address must be a valid IP or domain name'')
        else None)\<rparr>"

text \<open>
  The manager's state: the database and the cache of pools by network id. The Go map
  holds pointers and the pools are changed in place; here a changed pool is written
  back into the cache.
\<close>

record VNM =
  vnm_storage :: DB
  ipPools :: "IPPool bucket"

text \<open>\<open>ensureIPPool\<close>: an error (or none) and the manager's state after the call.
  The warnings it prints are not part of the state.\<close>

definition ensureIPPool ::
  "(string \<Rightarrow> IP option) \<Rightarrow> VNM \<Rightarrow> string \<Rightarrow> string \<Rightarrow> error option \<times> VNM" where
  "ensureIPPool p6 vnm networkID networkCIDR' =
     (if bucket_get (ipPools vnm) networkID \<noteq> None then (None, vnm)
      else
        (let restored =
               (case sm_GetIPPoolState (vnm_storage vnm) networkID of
                  Inl e \<Rightarrow> None
                | Inr state \<Rightarrow>
                    (case RestoreIPPool p6 state of Inl e \<Rightarrow> None | Inr ipPool \<Rightarrow> Some ipPool))
         in case restored of
              Some ipPool \<Rightarrow>
                (None, vnm\<lparr>ipPools := bucket_insert networkID ipPool (ipPools vnm)\<rparr>)
            | None \<Rightarrow>
                (case NewIPPool p6 networkCIDR' of
                   Inl e \<Rightarrow> (Some (ErrWrap ''failed to create IP pool'' e), vnm)
                 | Inr ipPool \<Rightarrow>
                     (let marked =
                            (case sm_GetServerByNetworkID (vnm_storage vnm) networkID of
                               Inl e \<Rightarrow> Inr ipPool
                             | Inr server \<Rightarrow> MarkIPAllocated ipPool (srv_VirtualIP server))
                      in case marked of
                           Inl markErr \<Rightarrow>
                             (Some (ErrWrap ''failed to mark server IP as allocated'' markErr), vnm)
                         | Inr ipPool \<Rightarrow>
                             (let nodes' = sm_ListNodesByNetworkID (vnm_storage vnm) networkID;
                                  ipPool = mark_all (map node_VirtualIP nodes') ipPool;
                                  ipPool = SyncNextIndex ipPool;
                                  vnm = vnm\<lparr>ipPools := bucket_insert networkID ipPool
                                                          (ipPools vnm)\<rparr>
                              in case sm_GetIPPoolState (vnm_storage vnm) networkID of
                                   Inr state \<Rightarrow> (None, vnm)
                                 | Inl e \<Rightarrow>
                                     (case sm_SaveIPPoolState (vnm_storage vnm) networkID
                                             (GetState ipPool) of
                                        Inl saveErr \<Rightarrow>
                                          (Some (ErrWrap
                                             ''failed to save reconstructed IP pool state''
                                             saveErr), vnm)
                                      | Inr db \<Rightarrow> (None, vnm\<lparr>vnm_storage := db\<rparr>)))))))"

definition vnm_CreateVirtualNetwork ::
  "(string \<Rightarrow> IP option) \<Rightarrow> IPValidator \<Rightarrow> string \<Rightarrow> time \<Rightarrow> VNM \<Rightarrow> string \<Rightarrow> string
   \<Rightarrow> (error + VirtualNetwork) \<times> VNM" where
  "vnm_CreateVirtualNetwork p6 validator uuid now vnm name cidr =
     (case IsValidNetworkName validator name of
        Some e \<Rightarrow> (Inl e, vnm)
      | None \<Rightarrow>
          (case IsValidCIDR validator cidr of
             Some e \<Rightarrow> (Inl e, vnm)
           | None \<Rightarrow>
               (case NewIPPool p6 cidr of
                  Inl e \<Rightarrow> (Inl (ErrWrap ''failed to create IP pool'' e), vnm)
                | Inr ipPool \<Rightarrow>
                    (case sm_CreateNetwork (vnm_storage vnm) uuid now name cidr of
                       Inl e \<Rightarrow> (Inl e, vnm)
                     | Inr (network, db) \<Rightarrow>
                         (Inr network,
                          vnm\<lparr>vnm_storage := db,
                               ipPools := bucket_insert (net_ID network) ipPool
                                            (ipPools vnm)\<rparr>)))))"

text \<open>
  \<open>CreateNode\<close>. \<open>keys\<close> is what \<open>util.GenerateWireGuardKeys\<close> returns at this call:
  an error, or the private and the public key.
\<close>

definition vnm_CreateNode ::
  "(string \<Rightarrow> IP option) \<Rightarrow> IPValidator \<Rightarrow> error + (string \<times> string) \<Rightarrow> string \<Rightarrow> time \<times> time
   \<Rightarrow> VNM \<Rightarrow> string \<Rightarrow> string \<Rightarrow> string \<Rightarrow> int \<Rightarrow> NodeType \<Rightarrow> (error + Node) \<times> VNM" where
  "vnm_CreateNode p6 validator keys uuid now vnm networkName nodeName publicAddress port nodeType =
     (case sm_GetNetworkByName (vnm_storage vnm) networkName of
        Inl e \<Rightarrow> (Inl e, vnm)
      | Inr network \<Rightarrow>
          if nodeType = NodeTypePeer \<and> publicAddress = []
          then (Inl ErrPeerRequiresPublicAddress, vnm)
          else
            (case (if publicAddress \<noteq> [] then IsValidPublicAddress validator publicAddress
                   else None) of
               Some valErr \<Rightarrow> (Inl valErr, vnm)
             | None \<Rightarrow>
                 (case ensureIPPool p6 vnm (net_ID network) (net_CIDR network) of
                    (Some e, vnm) \<Rightarrow> (Inl e, vnm)
                  | (None, vnm) \<Rightarrow>
                      (case bucket_get (ipPools vnm) (net_ID network) of
                         None \<Rightarrow> (Inl ErrNilPool, vnm)
                       | Some ipPool \<Rightarrow>
                           (case AllocateNodeIP ipPool of
                              Inl e \<Rightarrow> (Inl e, vnm)
                            | Inr (nodeIP, ipPool) \<Rightarrow>
                                (let vnm = vnm\<lparr>ipPools := bucket_insert (net_ID network) ipPool
                                                        (ipPools vnm)\<rparr>;
                                     released =
                                       vnm\<lparr>ipPools :=
                                         bucket_insert (net_ID network)
                                           (case ReleaseNodeIP ipPool nodeIP of
                                              Inl e \<Rightarrow> ipPool | Inr q \<Rightarrow> q)
                                           (ipPools vnm)\<rparr>
                                 in case keys of
                                      Inl e \<Rightarrow> (Inl e, released)
                                    | Inr (privateKey, publicKey) \<Rightarrow>
                                        (let port = (if port = 0 then 51820 else port);
                                             nodeType = (if nodeType = [] then NodeTypePeer
                                                         else nodeType)
                                         in case sm_CreateNode (vnm_storage vnm) uuid now
                                                   (net_ID network) nodeName publicAddress port
                                                   nodeIP nodeType privateKey publicKey of
                                              Inl e \<Rightarrow> (Inl e, released)
                                            | Inr (node, db) \<Rightarrow>
                                                (let vnm = vnm\<lparr>vnm_storage := db\<rparr>
                                                 in case sm_SaveIPPoolState db (net_ID network)
                                                           (GetState ipPool) of
                                                      Inl e \<Rightarrow>
                                                        (Inl (ErrWrap
                                                           ''failed to save IP pool state'' e),
                                                         vnm)
                                                    | Inr db \<Rightarrow>
                                                        (Inr node,
                                                         vnm\<lparr>vnm_storage := db\<rparr>)))))))))"

text \<open>A manager with the network \<open>n1\<close>, and the member that a call of \<open>CreateNode\<close>
  with no type and no public address stores in it.\<close>

definition vnm_net1 :: VNM where
  "vnm_net1 = \<lparr>vnm_storage = db_net1, ipPools = [(''net-1'', pool24)]\<rparr>"

definition node1_no_address :: Node where
  "node1_no_address =
     \<lparr>node_ID = ''node-1'', node_NetworkID = ''net-1'', node_Name = ''node1'',
      node_PublicAddress = [], node_Port = 51820, node_VirtualIP = ''10.0.0.2'',
      node_Type = ''peer'', node_PrivateKey = ''node-private'', node_PublicKey = ''node-public'',
      node_CreatedAt = 110, node_UpdatedAt = 111\<rparr>"

definition vnm_node1 :: VNM where
  "vnm_node1 =
     \<lparr>vnm_storage =
        db_net1\<lparr>nodes := [(''node-1'', node1_no_address)],
                nodes_by_name := [(''net-1:node1'', ''node-1'')],
                ip_pools := [(''net-1'', GetState pool24_one_allocated)]\<rparr>,
      ipPools = [(''net-1'', pool24_one_allocated)]\<rparr>"

section \<open>Notions for stating the generator's properties\<close>

text \<open>
  The text of one \<open>[Peer]\<close> entry: public key, allowed addresses and, when there is
  a reachability hint, the \<open>Endpoint\<close> line.
\<close>

definition peer_entry :: "string \<Rightarrow> string \<Rightarrow> string option \<Rightarrow> string" where
  "peer_entry publicKey allowedIPs endpoint =
     nl @ ''[Peer]'' @ nl @ ''PublicKey = '' @ publicKey @ nl @
     ''AllowedIPs = '' @ allowedIPs @ nl @
     (case endpoint of None \<Rightarrow> [] | Some e \<Rightarrow> ''Endpoint = '' @ e @ nl)"

text \<open>The entry for a member in the hub's document: the hint only for a peer-type
  member (that has a public address).\<close>

definition entry_in_hub_document :: "Node \<Rightarrow> string" where
  "entry_in_hub_document n =
     peer_entry (node_PublicKey n) (node_VirtualIP n @ ''/32'')
       (if node_Type n = NodeTypePeer \<and> node_PublicAddress n \<noteq> []
        then Some (FormatEndpoint (node_PublicAddress n) (node_Port n)) else None)"

text \<open>The entry for a member in another member's document, and the entry for the hub.\<close>

definition entry_in_member_document :: "Node \<Rightarrow> string" where
  "entry_in_member_document n =
     peer_entry (node_PublicKey n) (node_VirtualIP n @ ''/32'')
       (if node_PublicAddress n \<noteq> []
        then Some (FormatEndpoint (node_PublicAddress n) (node_Port n)) else None)"

definition hub_entry :: "VirtualNetwork \<Rightarrow> Server \<Rightarrow> string" where
  "hub_entry network server =
     peer_entry (srv_PublicKey server) (net_CIDR network)
       (if srv_PublicAddress server \<noteq> []
        then Some (FormatEndpoint (srv_PublicAddress server) (srv_Port server)) else None)"

definition server_interface :: "Server \<Rightarrow> string" where
  "server_interface server =
     ''[Interface]'' @ nl @ ''PrivateKey = '' @ srv_PrivateKey server @ nl @
     ''Address = '' @ srv_VirtualIP server @ ''/32'' @ nl @
     ''ListenPort = '' @ itoa (srv_Port server) @ nl @
     ''PostUp = sysctl -w net.ipv4.ip_forward=1'' @ nl @
     ''PostDown = sysctl -w net.ipv4.ip_forward=0'' @ nl"

definition node_interface :: "Node \<Rightarrow> string" where
  "node_interface node =
     ''[Interface]'' @ nl @ ''PrivateKey = '' @ node_PrivateKey node @ nl @
     ''Address = '' @ node_VirtualIP node @ ''/32'' @ nl @
     ''ListenPort = '' @ itoa (node_Port node) @ nl"

text \<open>The example topology: hub H, peers P1 and P2, routes R1 and R2.\<close>

definition member :: "string \<Rightarrow> string \<Rightarrow> string \<Rightarrow> NodeType \<Rightarrow> Node" where
  "member name address vip type =
     \<lparr>node_ID = ''id-'' @ name, node_NetworkID = ''net-1'', node_Name = name,
      node_PublicAddress = address, node_Port = 51820, node_VirtualIP = vip,
      node_Type = type, node_PrivateKey = ''private-'' @ name,
      node_PublicKey = ''public-'' @ name, node_CreatedAt = 120, node_UpdatedAt = 120\<rparr>"

definition P1 :: Node where "P1 = member ''P1'' ''198.51.100.1'' ''10.0.0.2'' NodeTypePeer"

definition P2 :: Node where "P2 = member ''P2'' ''198.51.100.2'' ''10.0.0.3'' NodeTypePeer"

definition R1 :: Node where "R1 = member ''R1'' [] ''10.0.0.4'' NodeTypeRoute"

definition R2 :: Node where "R2 = member ''R2'' [] ''10.0.0.5'' NodeTypeRoute"

definition net1 :: VirtualNetwork where
  "net1 = \<lparr>net_ID = ''net-1'', net_Name = ''n1'', net_CIDR = ''10.0.0.0/24'', net_CreatedAt = 100\<rparr>"

section \<open>Properties of the model\<close>

subsection \<open>Decimal text and dotted addresses\<close>


lemma of_char_digit_char: "d < 10 \<Longrightarrow> (of_char (digit_char d) :: nat) = 48 + d"
  by (simp add: digit_char_def)

lemma is_digit_digit_char: "d < 10 \<Longrightarrow> is_digit (digit_char d)"
  by (simp add: is_digit_def of_char_digit_char)

lemma digit_val_digit_char: "d < 10 \<Longrightarrow> digit_val (digit_char d) = d"
  by (simp add: digit_val_def of_char_digit_char)

lemma itoa_nat_digits: "list_all is_digit (itoa_nat n)"
proof (induction n rule: itoa_nat.induct)
  case (1 n)
  show ?case
  proof (cases "n < 10")
    case True
    then show ?thesis by (subst itoa_nat.simps) (simp add: is_digit_digit_char)
  next
    case False
    with 1 show ?thesis by (subst itoa_nat.simps) (simp add: is_digit_digit_char)
  qed
qed

lemma itoa_nat_nonempty: "itoa_nat n \<noteq> []"
  by (subst itoa_nat.simps) simp

lemma dec_val_snoc: "dec_val (s @ [c]) = dec_val s * 10 + digit_val c"
  by (simp add: dec_val_def)

lemma dec_val_itoa_nat: "dec_val (itoa_nat n) = n"
proof (induction n rule: itoa_nat.induct)
  case (1 n)
  show ?case
  proof (cases "n < 10")
    case True
    then show ?thesis
      by (subst itoa_nat.simps) (simp add: dec_val_def digit_val_digit_char)
  next
    case False
    with 1 have "dec_val (itoa_nat (n div 10)) = n div 10" by simp
    with False show ?thesis
      by (subst itoa_nat.simps) (simp add: dec_val_snoc digit_val_digit_char)
  qed
qed

lemma hd_itoa_nat: "0 < n \<Longrightarrow> hd (itoa_nat n) \<noteq> CHR ''0''"
proof (induction n rule: itoa_nat.induct)
  case (1 n)
  show ?case
  proof (cases "n < 10")
    case True
    have "(of_char (digit_char n) :: nat) \<noteq> of_char (CHR ''0'')"
      using True "1.prems" by (simp add: of_char_digit_char)
    then have "digit_char n \<noteq> CHR ''0''" by metis
    with True show ?thesis by (subst itoa_nat.simps) simp
  next
    case False
    then have "0 < n div 10" by simp
    with 1 False have "hd (itoa_nat (n div 10)) \<noteq> CHR ''0''" by simp
    with False show ?thesis
      by (subst itoa_nat.simps) (simp add: itoa_nat_nonempty)
  qed
qed

lemma length_itoa_nat_0: "length (itoa_nat 0) = 1"
  by (subst itoa_nat.simps) simp

lemma parse_octet_itoa: "parse_octet (itoa_nat (unat (b :: 8 word))) = Some b"
proof -
  have lt: "unat b < 256" using unsigned_less [of b, where ?'a = nat] by simp
  have nz: "\<not> (1 < length (itoa_nat (unat b)) \<and> hd (itoa_nat (unat b)) = CHR ''0'')"
  proof (cases "unat b = 0")
    case True
    then show ?thesis by (simp add: length_itoa_nat_0)
  next
    case False
    then show ?thesis using hd_itoa_nat [of "unat b"] by simp
  qed
  show ?thesis
    using lt nz by (simp add: parse_octet_def itoa_nat_nonempty itoa_nat_digits dec_val_itoa_nat)
qed

lemma digit_not_special: "is_digit c \<Longrightarrow> c \<noteq> CHR ''.'' \<and> c \<noteq> CHR '':'' \<and> c \<noteq> CHR ''%''"
  by (auto simp: is_digit_def)

lemma itoa_nat_no_dot: "CHR ''.'' \<notin> set (itoa_nat n)"
  using itoa_nat_digits [of n] digit_not_special by (auto simp: list_all_iff)

lemma split_dots_nonempty: "split_dots s \<noteq> []"
  by (induction s) (auto split: list.splits)

lemma split_dots_no_dot: "CHR ''.'' \<notin> set a \<Longrightarrow> split_dots a = [a]"
  by (induction a) auto

lemma split_dots_append: "CHR ''.'' \<notin> set a \<Longrightarrow> split_dots (a @ CHR ''.'' # r) = a # split_dots r"
  by (induction a) auto

lemma find_digits:
  "list_all is_digit a \<Longrightarrow>
   find (\<lambda>c. c = CHR ''.'' \<or> c = CHR '':'' \<or> c = CHR ''%'') (a @ CHR ''.'' # r) = Some CHR ''.''"
  by (induction a) (auto dest: digit_not_special)

lemma parseIPv4_dotted: "length ip = 4 \<Longrightarrow> parseIPv4 (dotted ip) = Some ip"
proof -
  assume "length ip = 4"
  then obtain a b c d where ip: "ip = [a, b, c, d]"
    by (auto simp: length_Suc_conv numeral_eq_Suc)
  show ?thesis
    by (simp add: ip dotted_def parseIPv4_def split_dots_append split_dots_no_dot
        itoa_nat_no_dot parse_octet_itoa)
qed

lemma ParseIP_dotted: "length ip = 4 \<Longrightarrow> ParseIP (dotted ip) = Some ip"
proof -
  assume len: "length ip = 4"
  have "find (\<lambda>c. c = CHR ''.'' \<or> c = CHR '':'' \<or> c = CHR ''%'') (dotted ip) = Some CHR ''.''"
    unfolding dotted_def using find_digits [OF itoa_nat_digits] by simp
  then show ?thesis by (simp add: ParseIP_def parseIPv4_dotted [OF len])
qed


lemma length_inc_bytes: "length (inc_bytes bs) = length bs"
  by (induction bs) auto

lemma le_val_lt: "le_val bs < 256 ^ length bs"
proof (induction bs)
  case Nil
  show ?case by simp
next
  case (Cons b bs)
  have "unat b < 256" using unsigned_less [of b, where ?'a = nat] by simp
  with Cons show ?case by simp
qed

lemma unat_byte_inc: "(b :: 8 word) + 1 \<noteq> 0 \<Longrightarrow> unat (b + 1) = unat b + 1"
  by (metis add.commute unatSuc Suc_eq_plus1)

lemma unat_byte_wrap: "(b :: 8 word) + 1 = 0 \<Longrightarrow> unat b = 255"
proof -
  assume "b + 1 = 0"
  then have "b = - 1" by (simp add: eq_neg_iff_add_eq_0)
  then show ?thesis by (simp add: unsigned_minus_1_eq_mask mask_eq_exp_minus_1)
qed

lemma le_val_inc_bytes: "le_val (inc_bytes bs) = (le_val bs + 1) mod 256 ^ length bs"
proof (induction bs)
  case Nil
  show ?case by simp
next
  case (Cons b bs)
  show ?case
  proof (cases "b + 1 = 0")
    case False
    have "unat b + 1 + 256 * le_val bs < 256 * 256 ^ length bs"
    proof -
      have "unat (b + 1) < 256" using unsigned_less [of "b + 1", where ?'a = nat] by simp
      then have "unat b + 1 < 256" using False by (simp add: unat_byte_inc)
      moreover have "le_val bs + 1 \<le> 256 ^ length bs" using le_val_lt [of bs] by simp
      then have "256 * (le_val bs + 1) \<le> 256 * 256 ^ length bs" by simp
      ultimately show ?thesis by simp
    qed
    with False show ?thesis by (simp add: unat_byte_inc)
  next
    case True
    have "256 * ((le_val bs + 1) mod 256 ^ length bs) = (256 * (le_val bs + 1)) mod (256 * 256 ^ length bs)"
      by (simp add: mult_mod_right)
    with True Cons show ?thesis by (simp add: unat_byte_wrap)
  qed
qed

lemma le_val_inj: "length bs = length cs \<Longrightarrow> le_val bs = le_val cs \<Longrightarrow> bs = cs"
proof (induction bs arbitrary: cs)
  case Nil
  then show ?case by simp
next
  case (Cons b bs)
  then obtain c cs' where cs: "cs = c # cs'" by (cases cs) auto
  have b: "unat b < 256" using unsigned_less [of b, where ?'a = nat] by simp
  have c: "unat c < 256" using unsigned_less [of c, where ?'a = nat] by simp
  from Cons.prems cs have eq: "unat b + 256 * le_val bs = unat c + 256 * le_val cs'" by simp
  from eq have "(unat b + 256 * le_val bs) mod 256 = (unat c + 256 * le_val cs') mod 256"
    by simp
  with b c have "unat b = unat c" by simp
  with eq have "le_val bs = le_val cs'" by simp
  with Cons cs \<open>unat b = unat c\<close> show ?case by (simp add: word_unat_eq_iff)
qed

lemma To4_len4: "length ip = 4 \<Longrightarrow> To4 ip = Some ip"
  by (simp add: To4_def)

lemma To4_length: "To4 ip = Some ip4 \<Longrightarrow> length ip4 = 4"
  by (auto simp: To4_def split: if_splits)

lemma increment_len4:
  "length ip = 4 \<Longrightarrow> \<exists>ip'. increment (Some ip) = Some ip' \<and> length ip' = 4 \<and>
     ip_val ip' = (ip_val ip + 1) mod 2 ^ 32"
  by (simp add: increment_def To4_len4 ip_val_def le_val_inc_bytes length_inc_bytes)

lemma funpow_increment:
  "length ip = 4 \<Longrightarrow> \<exists>ip'. (increment ^^ k) (Some ip) = Some ip' \<and> length ip' = 4 \<and>
     ip_val ip' = (ip_val ip + k) mod 2 ^ 32"
proof (induction k)
  case 0
  have "ip_val ip < 2 ^ 32" using le_val_lt [of "rev ip"] 0 by (simp add: ip_val_def)
  with 0 show ?case by simp
next
  case (Suc k)
  then obtain ip' where ip': "(increment ^^ k) (Some ip) = Some ip'" "length ip' = 4"
    "ip_val ip' = (ip_val ip + k) mod 2 ^ 32" by blast
  from increment_len4 [OF ip'(2)] obtain ip'' where
    "increment (Some ip') = Some ip''" "length ip'' = 4" "ip_val ip'' = (ip_val ip' + 1) mod 2 ^ 32"
    by blast
  with ip' show ?case by (simp add: mod_Suc_eq)
qed

lemma funpow_increment_eq:
  assumes "length ip = 4" "length ip' = 4" "ip_val ip' = (ip_val ip + k) mod 2 ^ 32"
  shows "(increment ^^ k) (Some ip) = Some ip'"
proof -
  from funpow_increment [OF assms(1), of k] obtain a where
    a: "(increment ^^ k) (Some ip) = Some a" "length a = 4" "ip_val a = (ip_val ip + k) mod 2 ^ 32"
    by blast
  from a(2,3) assms(2,3) have "le_val (rev a) = le_val (rev ip')" "length (rev a) = length (rev ip')"
    by (simp_all add: ip_val_def)
  then have "rev a = rev ip'" using le_val_inj by blast
  with a(1) show ?thesis by simp
qed

lemma ip_val_inj: "length a = 4 \<Longrightarrow> length b = 4 \<Longrightarrow> ip_val a = ip_val b \<Longrightarrow> a = b"
  using le_val_inj [of "rev a" "rev b"] by (simp add: ip_val_def)

lemma dotted_inj: "length a = 4 \<Longrightarrow> length b = 4 \<Longrightarrow> dotted a = dotted b \<Longrightarrow> a = b"
  by (metis ParseIP_dotted option.inject)

lemma IP_String_len4: "length ip = 4 \<Longrightarrow> IP_String (Some ip) = dotted ip"
  by (simp add: IP_String_def To4_len4)

lemma mod_add_cancel_nat:
  fixes v i j m :: nat
  assumes "(v + i) mod m = (v + j) mod m" "i < m" "j < m"
  shows "i = j"
proof -
  have aux: "a = b" if "(v + a) mod m = (v + b) mod m" "a \<le> b" "b < m" for a b :: nat
  proof -
    from that have "m dvd (v + b) - (v + a)"
      using mod_eq_dvd_iff_nat [of "v + a" "v + b" m] by simp
    then have "m dvd b - a" by simp
    moreover have "b - a < m" using that by simp
    ultimately have "b - a = 0" using nat_dvd_not_less by blast
    with that show ?thesis by simp
  qed
  show ?thesis
  proof (cases "i \<le> j")
    case True
    with aux [of i j] assms show ?thesis by simp
  next
    case False
    with aux [of j i] assms show ?thesis by simp
  qed
qed

lemma addr_inj:
  assumes "length ip = 4" "i < 2 ^ 32" "j < 2 ^ 32"
    and "IP_String ((increment ^^ i) (Some ip)) = IP_String ((increment ^^ j) (Some ip))"
  shows "i = j"
proof -
  from funpow_increment [OF assms(1), of i] obtain a where
    a: "(increment ^^ i) (Some ip) = Some a" "length a = 4" "ip_val a = (ip_val ip + i) mod 2 ^ 32"
    by blast
  from funpow_increment [OF assms(1), of j] obtain b where
    b: "(increment ^^ j) (Some ip) = Some b" "length b = 4" "ip_val b = (ip_val ip + j) mod 2 ^ 32"
    by blast
  from assms(4) a b have "dotted a = dotted b" by (simp add: IP_String_len4)
  with a b have "a = b" by (simp add: dotted_inj)
  with a b have "(ip_val ip + i) mod 2 ^ 32 = (ip_val ip + j) mod 2 ^ 32" by simp
  from this assms(2,3) show ?thesis by (rule mod_add_cancel_nat)
qed

subsection \<open>Masks and parsed blocks\<close>


lemma length_CIDRMask_bytes: "length (CIDRMask_bytes n l) = l"
  by (induction l arbitrary: n) auto

lemma CIDRMask_bytes_zero: "CIDRMask_bytes 0 l = replicate l 0"
  by (induction l) auto

lemma lt8_cases: "n < 8 \<Longrightarrow> n \<in> {0, 1, 2, 3, 4, 5, 6, 7 :: nat}"
  by (simp, arith)

lemma partial_byte_not_ff: "n < 8 \<Longrightarrow> NOT (drop_bit n (0xff :: 8 word)) \<noteq> 0xff"
  by (drule lt8_cases) (elim insertE emptyE; simp)

lemma partial_byte_leading_ones:
  "n < 8 \<Longrightarrow> leading_ones 8 (NOT (drop_bit n (0xff :: 8 word))) = (n, 0)"
  by (drule lt8_cases) (elim insertE emptyE; hypsubst; code_simp)

lemma simpleMaskLength_CIDRMask:
  "n \<le> 8 * l \<Longrightarrow> simpleMaskLength (CIDRMask_bytes n l) = Some n"
proof (induction l arbitrary: n)
  case 0
  then show ?case by simp
next
  case (Suc l)
  show ?case
  proof (cases "8 \<le> n")
    case True
    with Suc.prems have "n - 8 \<le> 8 * l" by simp
    with Suc.IH [of "n - 8"] True show ?thesis by simp
  next
    case False
    then have n: "n < 8" by simp
    show ?thesis
      using False partial_byte_not_ff [OF n] partial_byte_leading_ones [OF n]
      by (simp add: CIDRMask_bytes_zero)
  qed
qed

lemma CIDRMask_bytes_ff:
  "i < l \<Longrightarrow> CIDRMask_bytes n l ! i = 0xff \<Longrightarrow> 8 * (i + 1) \<le> n"
proof (induction l arbitrary: n i)
  case 0
  then show ?case by simp
next
  case (Suc l)
  show ?case
  proof (cases i)
    case 0
    with Suc.prems show ?thesis
      using partial_byte_not_ff [of n] by (auto split: if_splits)
  next
    case (Suc j)
    with Suc.prems have j: "j < l" by simp
    show ?thesis
    proof (cases "8 \<le> n")
      case True
      with Suc.prems \<open>i = Suc j\<close> have "CIDRMask_bytes (n - 8) l ! j = 0xff" by simp
      from Suc.IH [OF j this] True \<open>i = Suc j\<close> show ?thesis by simp
    next
      case False
      with Suc.prems \<open>i = Suc j\<close> have "CIDRMask_bytes 0 l ! j = 0xff" by simp
      from Suc.IH [OF j this] show ?thesis by simp
    qed
  qed
qed

lemma and_ff_right: "(a :: 8 word) AND m = 0xff \<Longrightarrow> m = 0xff"
proof -
  assume "a AND m = 0xff"
  then have "a AND m = - 1" by simp
  then show ?thesis by (simp add: and_eq_minus_1_iff)
qed

text \<open>What a successful \<open>ParseCIDR\<close> followed by a successful \<open>To4\<close> tells.\<close>

lemma ParseCIDR_To4:
  assumes "ParseCIDR p6 cidr = Some ipnet" "To4 (IP ipnet) = Some net4"
  shows "\<exists>ones bits. Mask_Size (Mask ipnet) = (ones, bits) \<and> ones \<le> bits \<and> bits - ones \<le> 32"
proof -
  from assms(1) obtain addr msk a n i where
    cut: "cut_slash cidr = Some (addr, msk)" and pa: "ParseAddr p6 addr = Some a"
    and dt: "dtoi msk = Some (n, i)"
    by (auto simp: ParseCIDR_def Let_def split: option.splits prod.splits if_splits)
  define bytes where "bytes = (case a of Addr4 b \<Rightarrow> b | Addr6 b \<Rightarrow> b)"
  from assms(1) cut pa dt have n: "n \<le> 8 * length bytes"
    and ipnet: "ipnet = \<lparr>IP = map2 (AND) bytes (CIDRMask_bytes n (length bytes)),
                          Mask = CIDRMask_bytes n (length bytes)\<rparr>"
    by (auto simp: ParseCIDR_def Let_def bytes_def split: if_splits)
  have len: "length bytes = 4 \<or> length bytes = 16"
  proof (cases a)
    case (Addr4 b)
    with pa have "parseIPv4 addr = Some b"
      by (auto simp: ParseAddr_def split: option.splits if_splits)
    then have "length b = 4"
      by (auto simp: parseIPv4_def split: list.splits option.splits)
    with Addr4 show ?thesis by (simp add: bytes_def)
  next
    case (Addr6 b)
    with pa have "length b = 16"
      by (auto simp: ParseAddr_def split: option.splits if_splits)
    with Addr6 show ?thesis by (simp add: bytes_def)
  qed
  have size: "Mask_Size (Mask ipnet) = (n, 8 * length bytes)"
    using n by (simp add: ipnet Mask_Size_def simpleMaskLength_CIDRMask length_CIDRMask_bytes)
  from len show ?thesis
  proof
    assume "length bytes = 4"
    with size n show ?thesis by simp
  next
    assume l16: "length bytes = 16"
    then have len16: "length (IP ipnet) = 16" by (simp add: ipnet length_CIDRMask_bytes)
    with assms(2) have "IP ipnet ! 11 = 0xff" by (auto simp: To4_def split: if_splits)
    then have "bytes ! 11 AND CIDRMask_bytes n 16 ! 11 = 0xff"
      using l16 by (simp add: ipnet length_CIDRMask_bytes)
    then have "CIDRMask_bytes n 16 ! 11 = 0xff" by (rule and_ff_right)
    with CIDRMask_bytes_ff [of 11 16 n] have "96 \<le> n" by simp
    with size n l16 show ?thesis by simp
  qed
qed

subsection \<open>A new pool\<close>


lemma ParseIP_length: "ParseIP s = Some ip \<Longrightarrow> length ip = 4"
  by (auto simp: ParseIP_def parseIPv4_def split: option.splits if_splits list.splits)

lemma pow2_gt2: "(2::int) < 2 ^ k \<Longrightarrow> 2 \<le> k"
proof (rule ccontr)
  assume a: "(2::int) < 2 ^ k" and "\<not> 2 \<le> k"
  then have "k = 0 \<or> k = 1" by arith
  with a show False by auto
qed

lemma NewIPPool_Inr:
  assumes "NewIPPool p6 cidr = Inr p"
  shows "\<exists>ipnet net4 ip0.
           ParseCIDR p6 cidr = Some ipnet \<and> To4 (IP ipnet) = Some net4 \<and>
           increment (Some net4) = Some ip0 \<and> length ip0 = 4 \<and>
           firstUsable p = dotted ip0 \<and> serverIP p = dotted ip0 \<and>
           allocated p = [] \<and> recycled p = [] \<and> nextIndex p = 1 \<and> networkCIDR p = cidr \<and>
           totalUsable p = int (block_total ipnet) - 2 \<and>
           4 \<le> block_total ipnet \<and> block_total ipnet \<le> 2 ^ 32"
proof -
  from assms obtain ipnet net4 where pc: "ParseCIDR p6 cidr = Some ipnet"
    and t4: "To4 (IP ipnet) = Some net4"
    by (auto simp: NewIPPool_def split: option.splits if_splits)
  from ParseCIDR_To4 [OF pc t4] obtain ones bits where
    ms: "Mask_Size (Mask ipnet) = (ones, bits)" and sh: "bits - ones \<le> 32" by blast
  define shift where "shift = bits - ones"
  have sh63: "shift < 63" using sh by (simp add: shift_def)
  have tot: "shl1_int64 shift = 2 ^ shift" using sh63 by (simp add: shl1_int64_def)
  have bt: "block_total ipnet = 2 ^ shift" by (simp add: block_total_def ms shift_def)
  have len4: "length net4 = 4" using t4 by (rule To4_length)
  have str: "IP_String (Some (IP ipnet)) = dotted net4" by (simp add: IP_String_def t4)
  have pip: "ParseIP (dotted net4) = Some net4" using len4 by (rule ParseIP_dotted)
  from increment_len4 [OF len4] obtain ip0 where
    inc: "increment (Some net4) = Some ip0" and len0: "length ip0 = 4" by blast
  from assms pc t4 ms have gt: "2 < shl1_int64 shift"
    by (auto simp: NewIPPool_def Let_def shift_def split: if_splits)
  with tot have "2 \<le> shift" by (simp add: pow2_gt2)
  then have "(2::nat) ^ 2 \<le> 2 ^ shift" by (intro power_increasing) simp_all
  then have ge4: "4 \<le> block_total ipnet" by (simp add: bt)
  have "(2::nat) ^ shift \<le> 2 ^ 32" using sh by (intro power_increasing) (simp_all add: shift_def)
  then have le: "block_total ipnet \<le> 2 ^ 32" by (simp add: bt)
  from assms pc t4 ms gt have p:
    "p = \<lparr>networkCIDR = cidr, serverIP = dotted ip0, allocated = [], recycled = [],
          nextIndex = 1, firstUsable = dotted ip0,
          lastUsable = IP_String ((increment ^^ nat (shl1_int64 shift - 1)) (Some net4)),
          totalUsable = shl1_int64 shift - 2\<rparr>"
    by (simp add: NewIPPool_def Let_def shift_def str pip inc IP_String_len4 [OF len0])
  show ?thesis
    using pc t4 inc len0 ge4 le by (simp add: p tot bt)
qed

lemma NewIPPool_wf:
  assumes "NewIPPool p6 cidr = Inr p"
  shows "pool_wf p"
proof -
  from NewIPPool_Inr [OF assms] obtain ipnet ip0 where
    f: "length ip0 = 4" "firstUsable p = dotted ip0" "serverIP p = dotted ip0"
      "totalUsable p = int (block_total ipnet) - 2" "4 \<le> block_total ipnet"
      "block_total ipnet \<le> 2 ^ 32" by blast
  have "int (block_total ipnet) \<le> 2 ^ 32" using f(6) by (metis of_nat_le_iff of_nat_numeral of_nat_power)
  with f show ?thesis by (simp add: pool_wf_def ParseIP_dotted)
qed

subsection \<open>The invariant of allocation\<close>


lemma pool_wf_first:
  "pool_wf p \<Longrightarrow> \<exists>ip0. length ip0 = 4 \<and> ParseIP (firstUsable p) = Some ip0 \<and> firstUsable p = dotted ip0"
  by (auto simp: pool_wf_def dest: ParseIP_length split: option.splits)

lemma addr_at_inj:
  assumes "pool_wf p" "i < 2 ^ 32" "j < 2 ^ 32" "addr_at p i = addr_at p j"
  shows "i = j"
proof -
  from pool_wf_first [OF assms(1)] obtain ip0 where
    "length ip0 = 4" "ParseIP (firstUsable p) = Some ip0" by blast
  with assms(2-4) show ?thesis using addr_inj [of ip0 i j] by (simp add: addr_at_def)
qed

lemma addr_at_0: "pool_wf p \<Longrightarrow> addr_at p 0 = firstUsable p"
  using pool_wf_first [of p] by (auto simp: addr_at_def IP_String_len4)

lemma addr_at_cong: "firstUsable p' = firstUsable p \<Longrightarrow> addr_at p' = addr_at p"
  by (simp add: addr_at_def fun_eq_iff)

lemma pool_wf_cong:
  "firstUsable p' = firstUsable p \<Longrightarrow> serverIP p' = serverIP p \<Longrightarrow>
   totalUsable p' = totalUsable p \<Longrightarrow> pool_wf p' = pool_wf p"
  by (simp add: pool_wf_def cong: option.case_cong)

lemma usable_lt: "pool_wf p \<Longrightarrow> k < totalUsable p \<Longrightarrow> nat k < 2 ^ 32"
proof -
  assume "pool_wf p" "k < totalUsable p"
  then have "k < 2 ^ 32" by (simp add: pool_wf_def)
  then show ?thesis by (simp add: nat_less_iff)
qed

text \<open>The two ways in which \<open>AllocateNodeIP\<close> succeeds.\<close>

lemma AllocateNodeIP_Inr:
  assumes "AllocateNodeIP p = Inr (ip, p')"
  shows "(recycled p = ip # recycled p' \<and> nextIndex p' = nextIndex p) \<or>
         (recycled p = [] \<and> recycled p' = [] \<and> nextIndex p < totalUsable p \<and>
          ip = addr_at p (nat (nextIndex p)) \<and> nextIndex p' = nextIndex p + 1)"
    and "allocated p' = List.insert ip (allocated p)"
    and "firstUsable p' = firstUsable p" and "serverIP p' = serverIP p"
    and "totalUsable p' = totalUsable p" and "networkCIDR p' = networkCIDR p"
  using assms
  by (auto simp: AllocateNodeIP_def Let_def addr_at_def split: list.splits if_splits)

lemma ReleaseNodeIP_Inr:
  assumes "ReleaseNodeIP p ip = Inr p'"
  shows "ip \<noteq> serverIP p" and "ip \<in> set (allocated p)"
    and "allocated p' = removeAll ip (allocated p)" and "recycled p' = recycled p @ [ip]"
    and "nextIndex p' = nextIndex p"
    and "firstUsable p' = firstUsable p" and "serverIP p' = serverIP p"
    and "totalUsable p' = totalUsable p" and "networkCIDR p' = networkCIDR p"
  using assms by (auto simp: ReleaseNodeIP_def split: if_splits)

lemma pool_invD:
  assumes "pool_inv p"
  shows "pool_wf p" and "1 \<le> nextIndex p" and "nextIndex p \<le> totalUsable p"
    and "distinct (recycled p)" and "set (recycled p) \<inter> set (allocated p) = {}"
    and "serverIP p \<notin> set (recycled p)"
    and "\<And>x. x \<in> set (allocated p) \<or> x \<in> set (recycled p) \<Longrightarrow>
              \<exists>i. i < nat (nextIndex p) \<and> x = addr_at p i"
proof -
  from assms show "pool_wf p" and "1 \<le> nextIndex p" and "nextIndex p \<le> totalUsable p"
    and "distinct (recycled p)" and "set (recycled p) \<inter> set (allocated p) = {}"
    and "serverIP p \<notin> set (recycled p)"
    by (simp_all add: pool_inv_def)
  fix x assume "x \<in> set (allocated p) \<or> x \<in> set (recycled p)"
  then have "x \<in> set (allocated p) \<union> set (recycled p)" by simp
  moreover from assms have "\<forall>ip \<in> set (allocated p) \<union> set (recycled p).
         \<exists>i \<in> {0 ..< nat (nextIndex p)}. ip = addr_at p i"
    by (simp add: pool_inv_def)
  ultimately have "\<exists>i \<in> {0 ..< nat (nextIndex p)}. x = addr_at p i" by blast
  then show "\<exists>i. i < nat (nextIndex p) \<and> x = addr_at p i" by auto
qed

lemma pool_invI:
  assumes "pool_wf p" and "1 \<le> nextIndex p" and "nextIndex p \<le> totalUsable p"
    and "distinct (recycled p)" and "set (recycled p) \<inter> set (allocated p) = {}"
    and "serverIP p \<notin> set (recycled p)"
    and "\<And>x. x \<in> set (allocated p) \<or> x \<in> set (recycled p) \<Longrightarrow>
              \<exists>i. i < nat (nextIndex p) \<and> x = addr_at p i"
  shows "pool_inv p"
  unfolding pool_inv_def using assms(1-6)
proof (intro conjI ballI)
  fix ip assume "ip \<in> set (allocated p) \<union> set (recycled p)"
  then have "ip \<in> set (allocated p) \<or> ip \<in> set (recycled p)" by simp
  from assms(7) [OF this] show "\<exists>i\<in>{0..<nat (nextIndex p)}. ip = addr_at p i" by auto
qed

lemma pool_inv_fresh:
  assumes "pool_inv p" "x \<in> set (allocated p) \<or> x \<in> set (recycled p)"
    "nextIndex p < totalUsable p"
  shows "x \<noteq> addr_at p (nat (nextIndex p))"
proof
  assume eq: "x = addr_at p (nat (nextIndex p))"
  note wf = pool_invD(1) [OF assms(1)]
  from pool_invD(7) [OF assms(1,2)] obtain i where i: "i < nat (nextIndex p)" "x = addr_at p i"
    by blast
  have k: "nat (nextIndex p) < 2 ^ 32" using wf assms(3) by (rule usable_lt)
  with i(1) have "i < 2 ^ 32" by simp
  from addr_at_inj [OF wf this k] i eq show False by simp
qed

lemma AllocateNodeIP_inv_recycled:
  assumes inv: "pool_inv p" and al: "AllocateNodeIP p = Inr (ip, p')"
    and r: "recycled p = ip # recycled p'" "nextIndex p' = nextIndex p"
  shows "pool_inv p'" and "ip \<notin> set (allocated p)" and "ip \<noteq> serverIP p"
proof -
  note f = AllocateNodeIP_Inr(2-) [OF al]
  note d = pool_invD [OF inv]
  have wf': "pool_wf p'" using pool_wf_cong [OF f(2) f(3) f(4)] d(1) by simp
  have at: "addr_at p' = addr_at p" using f(2) by (rule addr_at_cong)
  from d(5) r(1) show notin: "ip \<notin> set (allocated p)" by auto
  from d(6) r(1) show "ip \<noteq> serverIP p" by auto
  show "pool_inv p'"
  proof (rule pool_invI)
    show "pool_wf p'" by (rule wf')
    show "1 \<le> nextIndex p'" using d(2) r(2) by simp
    show "nextIndex p' \<le> totalUsable p'" using d(3) r(2) f(4) by simp
    show "distinct (recycled p')" using d(4) r(1) by simp
    show "set (recycled p') \<inter> set (allocated p') = {}"
      using d(4,5) r(1) by (auto simp: f(1))
    show "serverIP p' \<notin> set (recycled p')" using d(6) r(1) by (simp add: f(3))
    fix x assume "x \<in> set (allocated p') \<or> x \<in> set (recycled p')"
    then have "x \<in> set (allocated p) \<or> x \<in> set (recycled p)"
      using r(1) by (auto simp: f(1))
    from d(7) [OF this] show "\<exists>i. i < nat (nextIndex p') \<and> x = addr_at p' i"
      by (simp add: at r(2))
  qed
qed

lemma AllocateNodeIP_inv_cursor:
  assumes inv: "pool_inv p" and al: "AllocateNodeIP p = Inr (ip, p')"
    and c: "recycled p = []" "recycled p' = []" "nextIndex p < totalUsable p"
      "ip = addr_at p (nat (nextIndex p))" "nextIndex p' = nextIndex p + 1"
  shows "pool_inv p'" and "ip \<notin> set (allocated p)" and "ip \<noteq> serverIP p"
proof -
  note f = AllocateNodeIP_Inr(2-) [OF al]
  note d = pool_invD [OF inv]
  have wf': "pool_wf p'" using pool_wf_cong [OF f(2) f(3) f(4)] d(1) by simp
  have at: "addr_at p' = addr_at p" using f(2) by (rule addr_at_cong)
  show "ip \<notin> set (allocated p)"
    using pool_inv_fresh [OF inv _ c(3), of ip] c(4) by blast
  have k: "nat (nextIndex p) < 2 ^ 32" using d(1) c(3) by (rule usable_lt)
  have "nat (nextIndex p) \<noteq> 0" using d(2) by simp
  with addr_at_inj [OF d(1) k, of 0] have "addr_at p (nat (nextIndex p)) \<noteq> addr_at p 0"
    by auto
  with d(1) show "ip \<noteq> serverIP p" by (simp add: c(4) addr_at_0 pool_wf_def)
  show "pool_inv p'"
  proof (rule pool_invI)
    show "pool_wf p'" by (rule wf')
    show "1 \<le> nextIndex p'" using d(2) c(5) by simp
    show "nextIndex p' \<le> totalUsable p'" using c(3,5) f(4) by simp
    show "distinct (recycled p')" using c(2) by simp
    show "set (recycled p') \<inter> set (allocated p') = {}" using c(2) by simp
    show "serverIP p' \<notin> set (recycled p')" using c(2) by simp
    fix x assume "x \<in> set (allocated p') \<or> x \<in> set (recycled p')"
    then have "x = ip \<or> x \<in> set (allocated p) \<or> x \<in> set (recycled p)"
      using c(2) by (auto simp: f(1))
    then show "\<exists>i. i < nat (nextIndex p') \<and> x = addr_at p' i"
    proof
      assume "x = ip"
      with c(4) d(2) have "nat (nextIndex p) < nat (nextIndex p + 1) \<and> x = addr_at p (nat (nextIndex p))"
        by simp
      then show ?thesis unfolding at c(5) by blast
    next
      assume "x \<in> set (allocated p) \<or> x \<in> set (recycled p)"
      from d(7) [OF this] obtain i where "i < nat (nextIndex p)" "x = addr_at p i" by blast
      with d(2) have "i < nat (nextIndex p + 1) \<and> x = addr_at p i" by simp
      then show ?thesis unfolding at c(5) by blast
    qed
  qed
qed

lemma AllocateNodeIP_inv:
  assumes inv: "pool_inv p" and al: "AllocateNodeIP p = Inr (ip, p')"
  shows "pool_inv p'" and "ip \<notin> set (allocated p)" and "ip \<noteq> serverIP p"
  using AllocateNodeIP_Inr(1) [OF al] AllocateNodeIP_inv_recycled [OF inv al]
    AllocateNodeIP_inv_cursor [OF inv al] by blast+

lemma ReleaseNodeIP_inv:
  assumes inv: "pool_inv p" and rl: "ReleaseNodeIP p ip = Inr p'"
  shows "pool_inv p'"
proof -
  note f = ReleaseNodeIP_Inr [OF rl]
  note d = pool_invD [OF inv]
  have at: "addr_at p' = addr_at p" using f(6) by (rule addr_at_cong)
  from d(5) f(2) have nr: "ip \<notin> set (recycled p)" by auto
  show ?thesis
  proof (rule pool_invI)
    show "pool_wf p'" using pool_wf_cong [OF f(6) f(7) f(8)] d(1) by simp
    show "1 \<le> nextIndex p'" using d(2) f(5) by simp
    show "nextIndex p' \<le> totalUsable p'" using d(3) f(5,8) by simp
    show "distinct (recycled p')" using d(4) nr by (simp add: f(4))
    show "set (recycled p') \<inter> set (allocated p') = {}" using d(5) by (auto simp: f(3,4))
    show "serverIP p' \<notin> set (recycled p')" using d(6) f(1) by (simp add: f(4,7))
    fix x assume "x \<in> set (allocated p') \<or> x \<in> set (recycled p')"
    then have "x \<in> set (allocated p) \<or> x \<in> set (recycled p)"
      using f(2) by (auto simp: f(3,4))
    from d(7) [OF this] show "\<exists>i. i < nat (nextIndex p') \<and> x = addr_at p' i"
      by (simp add: at f(5))
  qed
qed

lemma NewIPPool_inv:
  assumes "NewIPPool p6 cidr = Inr p"
  shows "pool_inv p"
proof -
  note wf = NewIPPool_wf [OF assms]
  from NewIPPool_Inr [OF assms] have e: "allocated p = []" "recycled p = []" "nextIndex p = 1"
    by blast+
  from wf have "1 \<le> totalUsable p" by (simp add: pool_wf_def)
  with wf e show ?thesis by (intro pool_invI) simp_all
qed

subsection \<open>Sequences of calls\<close>

lemma step_inv:
  assumes "pool_inv p" "distinct live" "set live = set (allocated p)" "step (p, live) op = (p', live')"
  shows "pool_inv p' \<and> distinct live' \<and> set live' = set (allocated p')"
proof (cases op)
  case Allocate
  show ?thesis
  proof (cases "AllocateNodeIP p")
    case (Inl e)
    with Allocate assms show ?thesis by simp
  next
    case (Inr r)
    obtain ip q where r: "r = (ip, q)" by (cases r)
    with Inr Allocate assms(4) have eq: "p' = q" "live' = ip # live" by simp_all
    from Inr r have al: "AllocateNodeIP p = Inr (ip, q)" by simp
    from AllocateNodeIP_inv [OF assms(1) al] AllocateNodeIP_Inr(2) [OF al] assms(2,3)
    show ?thesis by (simp add: eq)
  qed
next
  case (Release ip)
  show ?thesis
  proof (cases "ReleaseNodeIP p ip")
    case (Inl e)
    with Release assms show ?thesis by simp
  next
    case (Inr q)
    with Release assms(4) have eq: "p' = q" "live' = remove1 ip live" by simp_all
    from ReleaseNodeIP_inv [OF assms(1) Inr] ReleaseNodeIP_Inr(3) [OF Inr] assms(2,3)
    show ?thesis by (auto simp: eq)
  qed
qed

lemma run_ops_inv:
  assumes "pool_inv p" "distinct live" "set live = set (allocated p)"
  shows "pool_inv (fst (run_ops ops (p, live))) \<and> distinct (snd (run_ops ops (p, live))) \<and>
         set (snd (run_ops ops (p, live))) = set (allocated (fst (run_ops ops (p, live))))"
  using assms
proof (induction ops arbitrary: p live)
  case Nil
  then show ?case by (simp add: run_ops_def)
next
  case (Cons op ops)
  obtain p' live' where st: "step (p, live) op = (p', live')" by (cases "step (p, live) op")
  from step_inv [OF Cons.prems st] Cons.IH [of p' live'] st
  show ?case by (simp add: run_ops_def)
qed

subsection \<open>Evaluating the pool of a concrete IPv4 block\<close>

lemma Mask_Size_CIDRMask: "n \<le> 8 * l \<Longrightarrow> Mask_Size (CIDRMask_bytes n l) = (n, 8 * l)"
  by (simp add: Mask_Size_def simpleMaskLength_CIDRMask length_CIDRMask_bytes)

lemma ParseCIDR_v4:
  assumes cut: "cut_slash cidr = Some (addr, msk)"
    and pa: "ParseAddr p6 addr = Some (Addr4 b)"
    and dt: "dtoi msk = Some (n, length msk)"
    and n: "n \<le> 32"
    and net: "map2 (AND) b (CIDRMask_bytes n 4) = net4"
    and len: "length b = 4"
  shows "ParseCIDR p6 cidr = Some \<lparr>IP = net4, Mask = CIDRMask_bytes n 4\<rparr>"
  using n by (simp add: ParseCIDR_def cut pa dt len net)

lemma NewIPPool_v4:
  assumes pc: "ParseCIDR p6 cidr = Some \<lparr>IP = net4, Mask = CIDRMask_bytes n 4\<rparr>"
    and len4: "length net4 = 4"
    and n: "n \<le> 32"
  shows "NewIPPool p6 cidr =
     (if n \<le> 30 then
        Inr \<lparr>networkCIDR = cidr, serverIP = IP_String (increment (Some net4)),
             allocated = [], recycled = [], nextIndex = 1,
             firstUsable = IP_String (increment (Some net4)),
             lastUsable = IP_String ((increment ^^ (2 ^ (32 - n) - 1)) (Some net4)),
             totalUsable = 2 ^ (32 - n) - 2\<rparr>
      else Inl ErrAtLeast3UsableIPs)"
proof -
  have ms: "Mask_Size (CIDRMask_bytes n 4) = (n, 32)"
    using n Mask_Size_CIDRMask [of n 4] by simp
  have sh: "shl1_int64 (32 - n) = 2 ^ (32 - n)" by (simp add: shl1_int64_def)
  show ?thesis
  proof (cases "n \<le> 30")
    case True
    then have "2 \<le> 32 - n" by simp
    then have "(2::int) ^ 2 \<le> 2 ^ (32 - n)" by (intro power_increasing) simp_all
    then have gt: "(2::int) < 2 ^ (32 - n)" by simp
    have nat1: "nat ((2::int) ^ (32 - n) - 1) = 2 ^ (32 - n) - 1"
      by (simp add: nat_diff_distrib nat_power_eq)
    show ?thesis
      using gt True
      by (simp add: NewIPPool_def pc To4_len4 [OF len4] ms sh Let_def
          IP_String_len4 [OF len4] ParseIP_dotted [OF len4] nat1)
  next
    case False
    with n have "32 - n = 0 \<or> 32 - n = 1" by arith
    then have "\<not> (2::int) < 2 ^ (32 - n)" by auto
    with False show ?thesis
      by (simp add: NewIPPool_def pc To4_len4 [OF len4] ms sh Let_def)
  qed
qed

lemma ParseAddr_10_0_0_0: "ParseAddr no_ipv6 ''10.0.0.0'' = Some (Addr4 [10, 0, 0, 0])"
  by code_simp

lemma dtoi_24: "dtoi ''24'' = Some (24, length ''24'')"
  by (simp add: dtoi_def is_digit_def digit_val_def)

lemma dtoi_30: "dtoi ''30'' = Some (30, length ''30'')"
  by (simp add: dtoi_def is_digit_def digit_val_def)

lemma ParseCIDR_10_24:
  "ParseCIDR no_ipv6 ''10.0.0.0/24'' = Some \<lparr>IP = [10, 0, 0, 0], Mask = CIDRMask_bytes 24 4\<rparr>"
proof -
  have c: "cut_slash ''10.0.0.0/24'' = Some (''10.0.0.0'', ''24'')" by code_simp
  have m: "map2 (AND) [10, 0, 0, 0] (CIDRMask_bytes 24 4) = [10, 0, 0, 0]" by code_simp
  show ?thesis by (rule ParseCIDR_v4 [OF c ParseAddr_10_0_0_0 dtoi_24 _ m]) simp_all
qed

lemma ParseCIDR_10_30:
  "ParseCIDR no_ipv6 ''10.0.0.0/30'' = Some \<lparr>IP = [10, 0, 0, 0], Mask = CIDRMask_bytes 30 4\<rparr>"
proof -
  have c: "cut_slash ''10.0.0.0/30'' = Some (''10.0.0.0'', ''30'')" by code_simp
  have m: "map2 (AND) [10, 0, 0, 0] (CIDRMask_bytes 30 4) = [10, 0, 0, 0]" by code_simp
  show ?thesis by (rule ParseCIDR_v4 [OF c ParseAddr_10_0_0_0 dtoi_30 _ m]) simp_all
qed

lemma NewIPPool_10_24: "NewIPPool no_ipv6 ''10.0.0.0/24'' = Inr pool24"
proof -
  have f: "IP_String (increment (Some [10, 0, 0, 0])) = ''10.0.0.1''" by code_simp
  have "(increment ^^ 255) (Some [10, 0, 0, 0]) = Some [10, 0, 0, 255]"
    by (rule funpow_increment_eq) (simp_all add: ip_val_def)
  moreover have "IP_String (Some [10, 0, 0, 255]) = ''10.0.0.255''" by code_simp
  ultimately have l: "IP_String ((increment ^^ 255) (Some [10, 0, 0, 0])) = ''10.0.0.255''"
    by simp
  show ?thesis
    using NewIPPool_v4 [OF ParseCIDR_10_24] f l by (simp add: pool24_def)
qed

lemma block_total_10_24: "block_total \<lparr>IP = [10, 0, 0, 0], Mask = CIDRMask_bytes 24 4\<rparr> = 256"
  using Mask_Size_CIDRMask [of 24 4] by (simp add: block_total_def)

lemma block_total_10_30: "block_total \<lparr>IP = [10, 0, 0, 0], Mask = CIDRMask_bytes 30 4\<rparr> = 4"
  using Mask_Size_CIDRMask [of 30 4] by (simp add: block_total_def)

lemma addr24: 
  "addr_at pool24 1 = ''10.0.0.2''" "addr_at pool24 2 = ''10.0.0.3''" "addr_at pool24 3 = ''10.0.0.4''"
  unfolding addr_at_def pool24_def by code_simp+


subsection \<open>Allocation from the recycle queue and from the cursor\<close>

lemma allocs_Suc:
  "allocs (Suc n) p =
     (case AllocateNodeIP p of
        Inl e \<Rightarrow> (Inl e # fst (allocs n p), snd (allocs n p))
      | Inr (ip, p1) \<Rightarrow> (Inr ip # fst (allocs n p1), snd (allocs n p1)))"
  by (simp add: case_prod_unfold Let_def split: sum.splits)

lemma allocs_length: "length (fst (allocs n p)) = n"
  by (induction n arbitrary: p) (simp_all add: allocs_Suc del: allocs.simps(2) split: sum.splits prod.splits)

lemma allocs_recycled:
  "recycled p = q @ r \<Longrightarrow>
   fst (allocs (length q) p) = map Inr q \<and> recycled (snd (allocs (length q) p)) = r \<and>
   nextIndex (snd (allocs (length q) p)) = nextIndex p"
proof (induction q arbitrary: p)
  case Nil
  then show ?case by simp
next
  case (Cons a q)
  define p1 where "p1 = p\<lparr>recycled := q @ r, allocated := List.insert a (allocated p)\<rparr>"
  have al: "AllocateNodeIP p = Inr (a, p1)"
    using Cons.prems by (simp add: AllocateNodeIP_def p1_def)
  have "recycled p1 = q @ r" by (simp add: p1_def)
  moreover have "nextIndex p1 = nextIndex p" by (simp add: p1_def)
  ultimately show ?case using Cons.IH [of p1] al by (simp add: allocs_Suc del: allocs.simps(2))
qed

lemma release_all_Inr:
  "release_all as p = Inr p' \<Longrightarrow> recycled p' = recycled p @ as \<and> nextIndex p' = nextIndex p"
proof (induction as arbitrary: p)
  case Nil
  then show ?case by simp
next
  case (Cons a as)
  then obtain p1 where r: "ReleaseNodeIP p a = Inr p1" and ra: "release_all as p1 = Inr p'"
    by (auto split: sum.splits)
  from Cons.IH [OF ra] ReleaseNodeIP_Inr(4,5) [OF r] show ?case by simp
qed

lemma allocs_cursor:
  "recycled p = [] \<Longrightarrow> 0 \<le> nextIndex p \<Longrightarrow> nextIndex p + int n \<le> totalUsable p \<Longrightarrow>
   fst (allocs n p) = map (\<lambda>i. Inr (addr_at p (nat (nextIndex p) + i))) [0 ..< n] \<and>
   recycled (snd (allocs n p)) = [] \<and> nextIndex (snd (allocs n p)) = nextIndex p + int n \<and>
   totalUsable (snd (allocs n p)) = totalUsable p"
proof (induction n arbitrary: p)
  case 0
  then show ?case by simp
next
  case (Suc n)
  define ip where "ip = addr_at p (nat (nextIndex p))"
  define p1 where "p1 = p\<lparr>nextIndex := nextIndex p + 1, allocated := List.insert ip (allocated p)\<rparr>"
  have al: "AllocateNodeIP p = Inr (ip, p1)"
    using Suc.prems by (simp add: AllocateNodeIP_def p1_def ip_def addr_at_def Let_def)
  have at: "addr_at p1 = addr_at p" by (rule addr_at_cong) (simp add: p1_def)
  have "recycled p1 = []" "0 \<le> nextIndex p1" "nextIndex p1 + int n \<le> totalUsable p1"
    using Suc.prems by (simp_all add: p1_def)
  from Suc.IH [OF this] have ih:
    "fst (allocs n p1) = map (\<lambda>i. Inr (addr_at p (nat (nextIndex p1) + i))) [0 ..< n]"
    "recycled (snd (allocs n p1)) = []"
    "nextIndex (snd (allocs n p1)) = nextIndex p1 + int n"
    "totalUsable (snd (allocs n p1)) = totalUsable p1"
    by (simp_all add: at)
  have idx: "nat (nextIndex p1) = Suc (nat (nextIndex p))"
    using Suc.prems(2) by (simp add: p1_def nat_add_distrib)
  have "map (\<lambda>i. Inr (addr_at p (nat (nextIndex p) + i)) :: error + string) [0 ..< Suc n] =
        Inr ip # map (\<lambda>i. Inr (addr_at p (Suc (nat (nextIndex p)) + i))) [0 ..< n]"
    by (simp add: upt_rec [of 0 "Suc n"] map_Suc_upt [symmetric] ip_def del: upt_Suc)
  with al ih idx show ?case
    by (simp add: allocs_Suc p1_def del: allocs.simps(2) upt_Suc)
qed

subsection \<open>The server's address\<close>

lemma ParseCIDR_Some:
  assumes "ParseCIDR p6 cidr = Some ipnet"
  shows "\<exists>bytes n. (length bytes = 4 \<or> length bytes = 16) \<and> n \<le> 8 * length bytes \<and>
           ipnet = \<lparr>IP = map2 (AND) bytes (CIDRMask_bytes n (length bytes)),
                    Mask = CIDRMask_bytes n (length bytes)\<rparr>"
proof -
  from assms obtain addr msk a n i where
    cut: "cut_slash cidr = Some (addr, msk)" and pa: "ParseAddr p6 addr = Some a"
    and dt: "dtoi msk = Some (n, i)"
    by (auto simp: ParseCIDR_def Let_def split: option.splits prod.splits if_splits)
  define bytes where "bytes = (case a of Addr4 b \<Rightarrow> b | Addr6 b \<Rightarrow> b)"
  from assms cut pa dt have n: "n \<le> 8 * length bytes"
    and ipnet: "ipnet = \<lparr>IP = map2 (AND) bytes (CIDRMask_bytes n (length bytes)),
                          Mask = CIDRMask_bytes n (length bytes)\<rparr>"
    by (auto simp: ParseCIDR_def Let_def bytes_def split: if_splits)
  have len: "length bytes = 4 \<or> length bytes = 16"
  proof (cases a)
    case (Addr4 b)
    with pa have "parseIPv4 addr = Some b"
      by (auto simp: ParseAddr_def split: option.splits if_splits)
    then have "length b = 4"
      by (auto simp: parseIPv4_def split: list.splits option.splits)
    with Addr4 show ?thesis by (simp add: bytes_def)
  next
    case (Addr6 b)
    with pa have "length b = 16"
      by (auto simp: ParseAddr_def split: option.splits if_splits)
    with Addr6 show ?thesis by (simp add: bytes_def)
  qed
  with n ipnet show ?thesis by blast
qed

lemma To4_last: "To4 ip = Some ip4 \<Longrightarrow> ip4 ! 3 = ip ! (length ip - 1)"
  by (auto simp: To4_def split: if_splits)

lemma ip_val_no_wrap:
  assumes "length ip = 4" "ip ! 3 \<noteq> 0xff"
  shows "ip_val ip + 1 < 2 ^ 32"
proof -
  from assms(1) obtain a b c d where ip: "ip = [a, b, c, d]"
    by (auto simp: length_Suc_conv numeral_eq_Suc)
  have "unat d \<noteq> 255" using assms(2) by (simp add: ip word_unat_eq_iff)
  moreover have "unat d < 256" using unsigned_less [of d, where ?'a = nat] by simp
  ultimately have d: "unat d < 255" by simp
  have "le_val [c, b, a] < 256 ^ length [c, b, a]" by (rule le_val_lt)
  then have "le_val [c, b, a] < 16777216" by simp
  with d show ?thesis by (simp add: ip ip_val_def)
qed

lemma NewIPPool_server:
  assumes "NewIPPool p6 cidr = Inr p"
  shows "\<exists>ipnet net4 ip0.
           ParseCIDR p6 cidr = Some ipnet \<and> To4 (IP ipnet) = Some net4 \<and> length ip0 = 4 \<and>
           ip_val ip0 = ip_val net4 + 1 \<and> serverIP p = dotted ip0 \<and> firstUsable p = dotted ip0"
proof -
  from NewIPPool_Inr [OF assms] obtain ipnet net4 ip0 where
    pc: "ParseCIDR p6 cidr = Some ipnet" and t4: "To4 (IP ipnet) = Some net4"
    and inc: "increment (Some net4) = Some ip0" and len0: "length ip0 = 4"
    and s: "firstUsable p = dotted ip0" "serverIP p = dotted ip0"
    and bt: "4 \<le> block_total ipnet" by blast
  from ParseCIDR_Some [OF pc] obtain bytes n where
    len: "length bytes = 4 \<or> length bytes = 16" and n: "n \<le> 8 * length bytes"
    and ipnet: "ipnet = \<lparr>IP = map2 (AND) bytes (CIDRMask_bytes n (length bytes)),
                          Mask = CIDRMask_bytes n (length bytes)\<rparr>" by blast
  define l where "l = length bytes"
  have l: "0 < l" using len by (auto simp: l_def)
  have "block_total ipnet = 2 ^ (8 * l - n)"
    using n by (simp add: block_total_def ipnet Mask_Size_CIDRMask l_def)
  with bt have "n < 8 * l" by (cases "8 * l - n") auto
  have "CIDRMask_bytes n l ! (l - 1) \<noteq> 0xff"
  proof
    assume "CIDRMask_bytes n l ! (l - 1) = 0xff"
    from CIDRMask_bytes_ff [OF _ this] l \<open>n < 8 * l\<close> show False by simp
  qed
  moreover have "IP ipnet ! (l - 1) = bytes ! (l - 1) AND CIDRMask_bytes n l ! (l - 1)"
    using l by (simp add: ipnet l_def length_CIDRMask_bytes)
  ultimately have "IP ipnet ! (l - 1) \<noteq> 0xff" using and_ff_right by metis
  moreover have "length (IP ipnet) = l" by (simp add: ipnet l_def length_CIDRMask_bytes)
  ultimately have "net4 ! 3 \<noteq> 0xff" using To4_last [OF t4] by simp
  have len4: "length net4 = 4" using t4 by (rule To4_length)
  from ip_val_no_wrap [OF len4 \<open>net4 ! 3 \<noteq> 0xff\<close>] have nw: "ip_val net4 + 1 < 2 ^ 32" .
  from increment_len4 [OF len4] inc have "ip_val ip0 = (ip_val net4 + 1) mod 2 ^ 32" by auto
  with nw have "ip_val ip0 = ip_val net4 + 1" by simp
  with pc t4 len0 s show ?thesis by blast
qed

subsection \<open>What every reachable pool state keeps\<close>

lemma fold_max_ge:
  "m \<le> fold (\<lambda>a m. if a = s then m else (let i = f a in if m < i then i else m)) xs (m :: int)"
proof (induction xs arbitrary: m)
  case Nil
  show ?case by simp
next
  case (Cons a xs)
  have "m \<le> (if a = s then m else (let i = f a in if m < i then i else m))"
    by (simp add: Let_def)
  also have "\<dots> \<le> fold (\<lambda>a m. if a = s then m else (let i = f a in if m < i then i else m)) xs
                 (if a = s then m else (let i = f a in if m < i then i else m))"
    by (rule Cons.IH)
  finally show ?case by simp
qed

lemma SyncNextIndex_fields:
  "1 \<le> nextIndex (SyncNextIndex p)" "recycled (SyncNextIndex p) = recycled p"
  "allocated (SyncNextIndex p) = allocated p" "firstUsable (SyncNextIndex p) = firstUsable p"
  "serverIP (SyncNextIndex p) = serverIP p" "totalUsable (SyncNextIndex p) = totalUsable p"
  "networkCIDR (SyncNextIndex p) = networkCIDR p"
  using fold_max_ge [of 0 "serverIP p"
      "\<lambda>a. index_loop a (totalUsable p) (ParseIP (firstUsable p)) 0" "allocated p"]
  by (simp_all add: SyncNextIndex_def Let_def)

lemma MarkIPAllocated_Inr:
  "MarkIPAllocated p ip = Inr p' \<Longrightarrow>
   p' = p\<lparr>allocated := List.insert ip (allocated p)\<rparr> \<and> ip \<noteq> [] \<and> ip \<notin> set (allocated p)"
  by (auto simp: MarkIPAllocated_def split: if_splits)

lemma server_keptD:
  assumes "server_kept p0 p"
  shows "pool_wf p" "1 \<le> nextIndex p" "serverIP p \<notin> set (recycled p)"
    "networkCIDR p = networkCIDR p0" "serverIP p = serverIP p0"
  using assms unfolding server_kept_def by blast+

lemma server_keptI:
  assumes "pool_wf p" "1 \<le> nextIndex p" "serverIP p \<notin> set (recycled p)"
    "networkCIDR p = networkCIDR p0" "serverIP p = serverIP p0"
  shows "server_kept p0 p"
  using assms unfolding server_kept_def by blast

lemma reachable_server_kept:
  assumes "reachable p6 cidr p" "NewIPPool p6 cidr = Inr p0"
  shows "server_kept p0 p"
  using assms(1)
proof (induction rule: reachable.induct)
  case (r_new p)
  with assms(2) have "p = p0" by simp
  with pool_invD(1,2,6) [OF NewIPPool_inv [OF assms(2)]] show ?case
    by (intro server_keptI) simp_all
next
  case (r_allocate p ip p')
  note f = AllocateNodeIP_Inr [OF r_allocate(2)]
  note k = server_keptD [OF r_allocate(3)]
  have "pool_wf p'" using pool_wf_cong [OF f(3) f(4) f(5)] k(1) by simp
  moreover have "1 \<le> nextIndex p'" using f(1) k(2) by auto
  moreover have "serverIP p' \<notin> set (recycled p')" using f(1) k(3) by (auto simp: f(4))
  ultimately show ?case using k(4,5) f(4,6) by (intro server_keptI) simp_all
next
  case (r_release p ip p')
  note f = ReleaseNodeIP_Inr [OF r_release(2)]
  note k = server_keptD [OF r_release(3)]
  have "pool_wf p'" using pool_wf_cong [OF f(6) f(7) f(8)] k(1) by simp
  then show ?case using k(2-5) f(1) by (intro server_keptI) (simp_all add: f(4,5,7,9))
next
  case (r_mark p ip p')
  note k = server_keptD [OF r_mark(3)]
  from MarkIPAllocated_Inr [OF r_mark(2)] have p': "p' = p\<lparr>allocated := List.insert ip (allocated p)\<rparr>"
    by simp
  have "pool_wf p' = pool_wf p" by (rule pool_wf_cong) (simp_all add: p')
  with k(1) have "pool_wf p'" by simp
  then show ?case using k(2-5) by (intro server_keptI) (simp_all add: p')
next
  case (r_sync p)
  note k = server_keptD [OF r_sync(2)]
  have "pool_wf (SyncNextIndex p) = pool_wf p"
    by (rule pool_wf_cong) (simp_all add: SyncNextIndex_fields)
  with k(1) have "pool_wf (SyncNextIndex p)" by simp
  then show ?case using k(3-5) by (intro server_keptI) (simp_all add: SyncNextIndex_fields)
next
  case (r_restore p p')
  note k = server_keptD [OF r_restore(3)]
  from NewIPPool_Inr [OF assms(2)] have c: "networkCIDR p0 = cidr" by blast
  from r_restore(2) k(4) c assms(2) have
    p': "p' = p0\<lparr>allocated := fold List.insert (Allocated (GetState p))
                                   (List.insert (ServerIP (GetState p)) (allocated p0)),
                  recycled := recycled p, nextIndex := nextIndex p\<rparr>"
    by (simp add: RestoreIPPool_def GetState_def)
  have "pool_wf p' = pool_wf p0" by (rule pool_wf_cong) (simp_all add: p')
  with NewIPPool_wf [OF assms(2)] have "pool_wf p'" by simp
  then show ?case using k(2,3,5) by (intro server_keptI) (simp_all add: p')
qed

lemma server_kept_allocate:
  assumes "server_kept p0 p" "AllocateNodeIP p = Inr (ip, p')"
  shows "ip \<noteq> serverIP p"
proof -
  note k = server_keptD [OF assms(1)]
  from AllocateNodeIP_Inr(1) [OF assms(2)] show ?thesis
  proof
    assume "recycled p = ip # recycled p' \<and> nextIndex p' = nextIndex p"
    with k(3) show ?thesis by auto
  next
    assume c: "recycled p = [] \<and> recycled p' = [] \<and> nextIndex p < totalUsable p \<and>
          ip = addr_at p (nat (nextIndex p)) \<and> nextIndex p' = nextIndex p + 1"
    then have "nextIndex p < totalUsable p" by simp
    from usable_lt [OF k(1) this] have lt: "nat (nextIndex p) < 2 ^ 32" .
    have "nat (nextIndex p) \<noteq> 0" using k(2) by simp
    with addr_at_inj [OF k(1) lt, of 0] have "addr_at p (nat (nextIndex p)) \<noteq> addr_at p 0"
      by auto
    with c k(1) show ?thesis by (simp add: addr_at_0 pool_wf_def)
  qed
qed

subsection \<open>Resynchronising the cursor\<close>

lemma index_loop_finds:
  assumes "k \<le> i" "int i \<le> u"
    and "\<forall>j. k \<le> j \<and> j < i \<longrightarrow> IP_String ((increment ^^ j) s) \<noteq> t"
    and "IP_String ((increment ^^ i) s) = t"
  shows "index_loop t u ((increment ^^ k) s) (int k) = int i"
  using assms
proof (induction "i - k" arbitrary: k)
  case 0
  then have "k = i" by simp
  with "0.prems"(4) show ?case by (subst index_loop.simps) simp
next
  case (Suc d)
  then have lt: "k < i" by simp
  with Suc.prems(3) have ne: "IP_String ((increment ^^ k) s) \<noteq> t" by simp
  have "d = i - Suc k" using Suc.hyps(2) by simp
  moreover have "Suc k \<le> i" using lt by simp
  moreover have "\<forall>j. Suc k \<le> j \<and> j < i \<longrightarrow> IP_String ((increment ^^ j) s) \<noteq> t"
    using Suc.prems(3) by auto
  ultimately have ih: "index_loop t u ((increment ^^ Suc k) s) (int (Suc k)) = int i"
    using Suc.hyps(1) [of "Suc k"] Suc.prems(2,4) by blast
  have "int k < u" using lt Suc.prems(2) by simp
  with ne ih show ?case
    by (subst index_loop.simps) (simp add: add.commute)
qed

lemma index_loop_addr_at:
  assumes "pool_wf p" "i < nat (totalUsable p)"
  shows "index_loop (addr_at p i) (totalUsable p) (ParseIP (firstUsable p)) 0 = int i"
proof -
  have u: "totalUsable p \<le> 2 ^ 32" using assms(1) by (simp add: pool_wf_def)
  then have i32: "i < 2 ^ 32" using assms(2) by (simp add: nat_less_iff)
  have ne: "\<forall>j. 0 \<le> j \<and> j < i \<longrightarrow>
              IP_String ((increment ^^ j) (ParseIP (firstUsable p))) \<noteq> addr_at p i"
  proof (intro allI impI)
    fix j assume j: "0 \<le> j \<and> j < i"
    then have "j < 2 ^ 32" using i32 by simp
    from addr_at_inj [OF assms(1) this i32] j
    show "IP_String ((increment ^^ j) (ParseIP (firstUsable p))) \<noteq> addr_at p i"
      by (auto simp: addr_at_def)
  qed
  have "int i \<le> totalUsable p" using assms(2) by simp
  from index_loop_finds [of 0 i "totalUsable p" "ParseIP (firstUsable p)" "addr_at p i",
      OF _ this ne]
  show ?thesis by (simp add: addr_at_def)
qed

lemma fold_max_Max:
  "fold (\<lambda>a m. if a = s then m else (let i = f a in if m < i then i else m)) xs (m :: int) =
   Max (insert m (f ` (set xs - {s})))"
proof (induction xs arbitrary: m)
  case Nil
  show ?case by simp
next
  case (Cons x xs)
  let ?A = "f ` (set xs - {s})"
  have fin: "finite ?A" by simp
  show ?case
  proof (cases "x = s")
    case True
    then have "set (x # xs) - {s} = set xs - {s}" by auto
    with True Cons.IH [of m] show ?thesis by simp
  next
    case False
    then have img: "f ` (set (x # xs) - {s}) = insert (f x) ?A" by auto
    have step: "(if x = s then m else (let i = f x in if m < i then i else m)) = max m (f x)"
      using False by (simp add: Let_def max_def)
    have "Max (insert (max m (f x)) ?A) = Max (insert m (insert (f x) ?A))"
    proof (cases "?A = {}")
      case e: True
      show ?thesis unfolding e by simp
    next
      case ne: False
      have "Max (insert (max m (f x)) ?A) = max (max m (f x)) (Max ?A)"
        using fin ne by (rule Max_insert)
      moreover have "Max (insert (f x) ?A) = max (f x) (Max ?A)"
        using fin ne by (rule Max_insert)
      moreover have "Max (insert m (insert (f x) ?A)) = max m (Max (insert (f x) ?A))"
        by (rule Max_insert) (use fin in simp_all)
      ultimately show ?thesis by (simp add: max.assoc)
    qed
    with Cons.IH [of "max m (f x)"] step img show ?thesis by simp
  qed
qed

lemma mark_all_fields:
  "recycled (mark_all ips p) = recycled p \<and> nextIndex (mark_all ips p) = nextIndex p \<and>
   firstUsable (mark_all ips p) = firstUsable p \<and> serverIP (mark_all ips p) = serverIP p \<and>
   totalUsable (mark_all ips p) = totalUsable p \<and>
   set (allocated (mark_all ips p)) = set (allocated p) \<union> (set ips - {[]})"
proof (induction ips arbitrary: p)
  case Nil
  show ?case by (simp add: mark_all_def)
next
  case (Cons a ips)
  define q where "q = (case MarkIPAllocated p a of Inl e \<Rightarrow> p | Inr q' \<Rightarrow> q')"
  have m: "mark_all (a # ips) p = mark_all ips q" by (simp add: mark_all_def q_def)
  have q: "recycled q = recycled p" "nextIndex q = nextIndex p" "firstUsable q = firstUsable p"
    "serverIP q = serverIP p" "totalUsable q = totalUsable p"
    "set (allocated q) = set (allocated p) \<union> ({a} - {[]})"
    by (auto simp: q_def MarkIPAllocated_def)
  from Cons.IH [of q] show ?case unfolding m q by auto
qed

lemma dotted_nonempty: "dotted ip \<noteq> []"
  by (simp add: dotted_def itoa_nat_nonempty)

lemma addr_at_nonempty:
  assumes "pool_wf p"
  shows "addr_at p i \<noteq> []"
proof -
  from pool_wf_first [OF assms] obtain ip0 where
    ip0: "length ip0 = 4" "ParseIP (firstUsable p) = Some ip0" by blast
  from funpow_increment [OF ip0(1), of i] obtain a where
    "(increment ^^ i) (Some ip0) = Some a" "length a = 4" by blast
  with ip0(2) show ?thesis by (simp add: addr_at_def IP_String_len4 dotted_nonempty)
qed

lemma in_rangeD: "in_range p ip \<Longrightarrow> \<exists>i. i < nat (totalUsable p) \<and> ip = addr_at p i"
  by (auto simp: in_range_def)

lemma allocs_fresh:
  "pool_inv p \<Longrightarrow> Inr ip \<in> set (fst (allocs n p)) \<Longrightarrow> ip \<notin> set (allocated p)"
proof (induction n arbitrary: p)
  case 0
  then show ?case by simp
next
  case (Suc n)
  show ?case
  proof (cases "AllocateNodeIP p")
    case (Inl e)
    with Suc.prems(2) have "Inr ip \<in> set (fst (allocs n p))"
      by (simp add: allocs_Suc del: allocs.simps(2))
    with Suc.IH [OF Suc.prems(1)] show ?thesis by simp
  next
    case (Inr r)
    obtain a p1 where r: "r = (a, p1)" by (cases r)
    with Inr have al: "AllocateNodeIP p = Inr (a, p1)" by simp
    note i = AllocateNodeIP_inv [OF Suc.prems(1) al]
    from Suc.prems(2) al have "ip = a \<or> Inr ip \<in> set (fst (allocs n p1))"
      by (simp add: allocs_Suc del: allocs.simps(2))
    then show ?thesis
    proof
      assume "ip = a"
      with i(2) show ?thesis by simp
    next
      assume "Inr ip \<in> set (fst (allocs n p1))"
      from Suc.IH [OF i(1) this] AllocateNodeIP_Inr(2) [OF al] show ?thesis by simp
    qed
  qed
qed

lemma sync_mark:
  assumes new: "NewIPPool p6 cidr = Inr p0" and rng: "\<forall>ip \<in> set ips. in_range p0 ip"
  shows "pool_inv (SyncNextIndex (mark_all ips p0)) \<and>
         set (allocated (SyncNextIndex (mark_all ips p0))) = set ips \<and>
         nextIndex (SyncNextIndex (mark_all ips p0)) =
           1 + Max (insert 0 {int i | i. i < nat (totalUsable p0) \<and> addr_at p0 i \<in> set ips})"
proof -
  define q where "q = mark_all ips p0"
  define f where "f = (\<lambda>a. index_loop a (totalUsable q) (ParseIP (firstUsable q)) 0)"
  define A where "A = insert 0 (f ` (set (allocated q) - {serverIP q}))"
  note wf0 = NewIPPool_wf [OF new]
  from NewIPPool_Inr [OF new] have e0: "allocated p0 = []" "recycled p0 = []" by blast+
  from mark_all_fields [of ips p0] have mf:
    "recycled q = []" "firstUsable q = firstUsable p0" "serverIP q = serverIP p0"
    "totalUsable q = totalUsable p0" "set (allocated q) = set ips - {[]}"
    by (simp_all add: q_def e0)
  have at: "addr_at q = addr_at p0" using mf(2) by (rule addr_at_cong)
  have wfq: "pool_wf q" using pool_wf_cong [OF mf(2) mf(3) mf(4)] wf0 by simp
  have ne: "[] \<notin> set ips"
  proof
    assume "[] \<in> set ips"
    with rng in_rangeD obtain i where "[] = addr_at p0 i" by blast
    with addr_at_nonempty [OF wf0, of i] show False by simp
  qed
  with mf(5) have alloc: "set (allocated q) = set ips" by simp
  have fidx: "f (addr_at p0 i) = int i" if "i < nat (totalUsable p0)" for i
    using index_loop_addr_at [OF wfq, of i] that by (simp add: f_def at mf(4))
  have srv: "serverIP q = addr_at p0 0"
    using wf0 mf(3) by (simp add: addr_at_0 pool_wf_def)
  have U: "2 \<le> totalUsable p0" "totalUsable p0 \<le> 2 ^ 32" using wf0 by (simp_all add: pool_wf_def)
  have nx: "nextIndex (SyncNextIndex q) = Max A + 1"
    using fold_max_Max [of "serverIP q"
        "\<lambda>a. index_loop a (totalUsable q) (ParseIP (firstUsable q)) 0" "allocated q" 0]
    unfolding SyncNextIndex_def A_def f_def by simp
  have finA: "finite A" "A \<noteq> {}" by (simp_all add: A_def)
  have Aeq: "A = insert 0 {int i | i. i < nat (totalUsable p0) \<and> addr_at p0 i \<in> set ips}"
  proof (intro set_eqI iffI)
    fix x assume "x \<in> A"
    then consider "x = 0" | a where "a \<in> set ips" "a \<noteq> serverIP q" "x = f a"
      by (auto simp: A_def alloc)
    then show "x \<in> insert 0 {int i | i. i < nat (totalUsable p0) \<and> addr_at p0 i \<in> set ips}"
    proof cases
      case 1
      then show ?thesis by simp
    next
      case 2
      from rng 2(1) in_rangeD obtain i where i: "i < nat (totalUsable p0)" "a = addr_at p0 i"
        by blast
      with fidx [OF i(1)] 2 show ?thesis by auto
    qed
  next
    fix x assume "x \<in> insert 0 {int i | i. i < nat (totalUsable p0) \<and> addr_at p0 i \<in> set ips}"
    then consider "x = 0" | i where "i < nat (totalUsable p0)" "addr_at p0 i \<in> set ips" "x = int i"
      by auto
    then show "x \<in> A"
    proof cases
      case 1
      then show ?thesis by (simp add: A_def)
    next
      case 2
      show ?thesis
      proof (cases "addr_at p0 i = serverIP q")
        case True
        have "i < 2 ^ 32" using 2(1) U(2) by (simp add: nat_less_iff)
        from addr_at_inj [OF wf0 this, of 0] True srv have "i = 0" by simp
        with 2(3) show ?thesis by (simp add: A_def)
      next
        case False
        with 2(2) have "f (addr_at p0 i) \<in> f ` (set (allocated q) - {serverIP q})"
          by (simp add: alloc)
        with fidx [OF 2(1)] 2(3) show ?thesis by (simp add: A_def)
      qed
    qed
  qed
  have bound: "a \<le> totalUsable p0 - 1" if "a \<in> A" for a
  proof -
    from that Aeq consider "a = 0" | i where "i < nat (totalUsable p0)" "a = int i" by auto
    then show ?thesis using U(1) by cases auto
  qed
  have le: "Max A \<le> totalUsable p0 - 1" using finA bound by (simp add: Max_le_iff)
  have inv: "pool_inv (SyncNextIndex q)"
  proof (rule pool_invI)
    show "pool_wf (SyncNextIndex q)"
      using pool_wf_cong [of "SyncNextIndex q" q] wfq by (simp add: SyncNextIndex_fields)
    show "1 \<le> nextIndex (SyncNextIndex q)" by (rule SyncNextIndex_fields)
    show "nextIndex (SyncNextIndex q) \<le> totalUsable (SyncNextIndex q)"
      using le by (simp add: nx SyncNextIndex_fields mf(4))
    show "distinct (recycled (SyncNextIndex q))" by (simp add: SyncNextIndex_fields mf(1))
    show "set (recycled (SyncNextIndex q)) \<inter> set (allocated (SyncNextIndex q)) = {}"
      by (simp add: SyncNextIndex_fields mf(1))
    show "serverIP (SyncNextIndex q) \<notin> set (recycled (SyncNextIndex q))"
      by (simp add: SyncNextIndex_fields mf(1))
    fix x
    assume "x \<in> set (allocated (SyncNextIndex q)) \<or> x \<in> set (recycled (SyncNextIndex q))"
    then have x: "x \<in> set ips" by (simp add: SyncNextIndex_fields mf(1) alloc)
    with rng in_rangeD obtain i where i: "i < nat (totalUsable p0)" "x = addr_at p0 i" by blast
    with x have "int i \<in> A" unfolding Aeq by auto
    with finA have "int i \<le> Max A" by simp
    then have "i < nat (nextIndex (SyncNextIndex q))" by (simp add: nx)
    moreover have "addr_at (SyncNextIndex q) = addr_at p0"
      using addr_at_cong [of "SyncNextIndex q" q] by (simp add: SyncNextIndex_fields at)
    ultimately show "\<exists>i. i < nat (nextIndex (SyncNextIndex q)) \<and> x = addr_at (SyncNextIndex q) i"
      using i(2) by auto
  qed
  from inv alloc nx Aeq show ?thesis by (simp add: q_def SyncNextIndex_fields)
qed

subsection \<open>Calls of the manager\<close>


lemma AllocateNodeIP_pool24: "AllocateNodeIP pool24 = Inr (''10.0.0.2'', pool24_one_allocated)"
  by code_simp

lemma CreateVirtualNetwork_n1: "vnm_CreateVirtualNetwork no_ipv6 (DefaultIPValidator no_ipv6) ''net-1'' 100
       \<lparr>vnm_storage = empty_DB, ipPools = []\<rparr> ''n1'' ''10.0.0.0/24'' =
     (Inr \<lparr>net_ID = ''net-1'', net_Name = ''n1'', net_CIDR = ''10.0.0.0/24'',
           net_CreatedAt = 100\<rparr>, vnm_net1)"
proof -
  have n: "IsValidNetworkName (DefaultIPValidator no_ipv6) ''n1'' = None"
    by (simp add: DefaultIPValidator_def is_letter_def is_digit_def)
  have c: "IsValidCIDR (DefaultIPValidator no_ipv6) ''10.0.0.0/24'' = None"
    by (simp add: DefaultIPValidator_def ParseCIDR_10_24)
  have s: "sm_CreateNetwork empty_DB ''net-1'' 100 ''n1'' ''10.0.0.0/24'' =
     Inr (\<lparr>net_ID = ''net-1'', net_Name = ''n1'', net_CIDR = ''10.0.0.0/24'',
           net_CreatedAt = 100\<rparr>, db_net1)"
    by (simp add: Let_def sm_CreateNetwork_def bucket_get_def bucket_put_def empty_DB_def db_net1_def)
  show ?thesis
    by (simp add: vnm_CreateVirtualNetwork_def n c s NewIPPool_10_24 vnm_net1_def)
qed

lemma CreateNode_no_type_no_address: "vnm_CreateNode no_ipv6 (DefaultIPValidator no_ipv6) (Inr (''node-private'', ''node-public''))
       ''node-1'' (110, 111) vnm_net1 ''n1'' ''node1'' [] 0 [] = (Inr node1_no_address, vnm_node1)"
proof -
  have g: "sm_GetNetworkByName db_net1 ''n1'' =
     Inr \<lparr>net_ID = ''net-1'', net_Name = ''n1'', net_CIDR = ''10.0.0.0/24'', net_CreatedAt = 100\<rparr>"
    by (simp add: sm_GetNetworkByName_def bucket_get_def db_net1_def empty_DB_def)
  have e: "ensureIPPool no_ipv6 vnm_net1 ''net-1'' ''10.0.0.0/24'' = (None, vnm_net1)"
    by (simp add: ensureIPPool_def vnm_net1_def bucket_get_def)
  have c: "sm_CreateNode db_net1 ''node-1'' (110, 111) ''net-1'' ''node1'' [] 51820 ''10.0.0.2''
       ''peer'' ''node-private'' ''node-public'' =
     Inr (node1_no_address,
          db_net1\<lparr>nodes := [(''node-1'', node1_no_address)],
                  nodes_by_name := [(''net-1:node1'', ''node-1'')]\<rparr>)"
    by (simp add: Let_def sm_CreateNode_def bucket_get_def bucket_put_def db_net1_def empty_DB_def
        node1_no_address_def)
  have s: "sm_SaveIPPoolState
       (db_net1\<lparr>nodes := [(''node-1'', node1_no_address)],
                nodes_by_name := [(''net-1:node1'', ''node-1'')]\<rparr>) ''net-1''
       (GetState pool24_one_allocated) =
     Inr (db_net1\<lparr>nodes := [(''node-1'', node1_no_address)],
                nodes_by_name := [(''net-1:node1'', ''node-1'')],
                ip_pools := [(''net-1'', GetState pool24_one_allocated)]\<rparr>)"
    by (simp add: sm_SaveIPPoolState_def bucket_put_def db_net1_def empty_DB_def)
  have v: "vnm_storage vnm_net1 = db_net1" "ipPools vnm_net1 = [(''net-1'', pool24)]"
    by (simp_all add: vnm_net1_def)
  show ?thesis
    apply (simp add: vnm_CreateNode_def v g e NodeTypePeer_def)
    apply (simp add: v bucket_get_def AllocateNodeIP_pool24 Let_def NodeTypePeer_def c s)
    apply (simp add: vnm_node1_def vnm_net1_def)
    done
qed


lemma CreateNode_peer_without_address:
  assumes "sm_GetNetworkByName (vnm_storage vnm) networkName = Inr network"
  shows "vnm_CreateNode p6 validator keys uuid now vnm networkName nodeName [] port NodeTypePeer =
           (Inl ErrPeerRequiresPublicAddress, vnm)"
  using assms by (simp add: vnm_CreateNode_def)

subsection \<open>The generators' loops\<close>

lemma fold_append_entries:
  "fold (\<lambda>n config. config @ g n) ns c = c @ concat (map g ns)"
  by (induction ns arbitrary: c) simp_all

lemma fold_append_selected:
  "fold (\<lambda>n config. if P n then config @ g n else config) ns c = c @ concat (map g (filter P ns))"
  by (induction ns arbitrary: c) simp_all

lemma generateServerConfig_entries:
  "generateServerConfig network server ns =
     server_interface server @ concat (map entry_in_hub_document ns)"
proof -
  have body: "(\<lambda>node config.
                 (let config = config @ nl @ ''[Peer]'' @ nl;
                      config = config @ ''PublicKey = '' @ node_PublicKey node @ nl;
                      config = config @ ''AllowedIPs = '' @ node_VirtualIP node @ ''/32'' @ nl
                  in if node_Type node = NodeTypePeer \<and> node_PublicAddress node \<noteq> []
                     then config @ ''Endpoint = '' @
                          FormatEndpoint (node_PublicAddress node) (node_Port node) @ nl
                     else config)) =
              (\<lambda>node config. config @ entry_in_hub_document node)"
    by (intro ext) (simp add: Let_def entry_in_hub_document_def peer_entry_def)
  show ?thesis
    unfolding generateServerConfig_def body
    by (simp add: Let_def fold_append_entries server_interface_def)
qed

lemma member_loop_body:
  "(let config = config @ nl @ ''[Peer]'' @ nl;
        config = config @ ''PublicKey = '' @ node_PublicKey otherNode @ nl;
        config = config @ ''AllowedIPs = '' @ node_VirtualIP otherNode @ ''/32'' @ nl
    in if node_PublicAddress otherNode \<noteq> []
       then config @ ''Endpoint = '' @
            FormatEndpoint (node_PublicAddress otherNode) (node_Port otherNode) @ nl
       else config) = config @ entry_in_member_document otherNode"
  by (simp add: Let_def entry_in_member_document_def peer_entry_def)

lemma generateNodeConfig_entries:
  "generateNodeConfig network server node ns =
     node_interface node @ hub_entry network server @
     (if node_Type node = NodeTypePeer
      then concat (map entry_in_member_document
             (filter (\<lambda>otherNode. node_ID otherNode \<noteq> node_ID node \<and>
                                   node_Type otherNode = NodeTypePeer) ns))
      else []) @
     (if node_Type node = NodeTypeRoute
      then concat (map entry_in_member_document
             (filter (\<lambda>otherNode. node_Type otherNode = NodeTypePeer) ns))
      else [])"
  unfolding generateNodeConfig_def member_loop_body
  by (simp add: Let_def fold_append_selected node_interface_def hub_entry_def peer_entry_def)

section \<open>The claims\<close>

text \<open>
  C3. The claim: constructing a pool fails exactly for malformed input, non-IPv4 blocks
  and blocks with at most 2 usable addresses (total addresses minus network and
  broadcast address). The block \<open>10.0.0.0/30\<close> has four addresses, two of them usable,
  and \<open>NewIPPool\<close> accepts it: its guard is \<open>totalIPsInt > 2\<close> on the total, although
  the error it returns otherwise reads "network must have at least 3 usable IPs".
\<close>

theorem C3_two_usable_addresses_accepted:
  "NewIPPool no_ipv6 ''10.0.0.0/30'' =
     Inr \<lparr>networkCIDR = ''10.0.0.0/30'', serverIP = ''10.0.0.1'', allocated = [],
          recycled = [], nextIndex = 1, firstUsable = ''10.0.0.1'',
          lastUsable = ''10.0.0.3'', totalUsable = 2\<rparr>"
proof -
  have f: "IP_String (increment (Some [10, 0, 0, 0])) = ''10.0.0.1''" by code_simp
  have l: "IP_String ((increment ^^ 3) (Some [10, 0, 0, 0])) = ''10.0.0.3''" by code_simp
  show ?thesis
    using NewIPPool_v4 [OF ParseCIDR_10_30] f l by simp
qed

text \<open>
  C4. From a freshly constructed pool, through any sequence of allocate and release
  calls, the live allocations (results of successful allocate calls that no successful
  release has taken back) are pairwise distinct: no address is held twice.
\<close>

theorem C4_live_allocations_distinct:
  assumes "NewIPPool p6 cidr = Inr p0"
  shows "distinct (snd (run_ops ops (p0, [])))"
proof -
  have "pool_inv p0" using assms by (rule NewIPPool_inv)
  moreover have "distinct ([] :: string list)" by simp
  moreover have "set [] = set (allocated p0)" using NewIPPool_Inr [OF assms] by auto
  ultimately show ?thesis using run_ops_inv [of p0 "[]" ops] by blast
qed

theorem C4_live_allocations_distinct_witness:
  "NewIPPool no_ipv6 ''10.0.0.0/24'' = Inr pool24 \<and>
   snd (run_ops [Allocate, Allocate, Release ''10.0.0.2'', Allocate, Allocate] (pool24, [])) =
     [''10.0.0.4'', ''10.0.0.2'', ''10.0.0.3''] \<and>
   distinct (snd (run_ops [Allocate, Allocate, Release ''10.0.0.2'', Allocate, Allocate]
                    (pool24, [])))"
proof (intro conjI)
  show "NewIPPool no_ipv6 ''10.0.0.0/24'' = Inr pool24" by (rule NewIPPool_10_24)
  show "snd (run_ops [Allocate, Allocate, Release ''10.0.0.2'', Allocate, Allocate] (pool24, [])) =
     [''10.0.0.4'', ''10.0.0.2'', ''10.0.0.3'']" by code_simp
  show "distinct (snd (run_ops [Allocate, Allocate, Release ''10.0.0.2'', Allocate, Allocate]
                    (pool24, [])))"
    by (rule C4_live_allocations_distinct [OF NewIPPool_10_24])
qed

text \<open>
  C6. The claim: in every pool state, releasing an address and allocating at once
  returns that address; and released addresses are reused first-freed first, before
  any address at the cursor. The first half fails where the recycle queue already holds
  an address: after two allocations and the release of \<open>10.0.0.2\<close>, releasing
  \<open>10.0.0.3\<close> and allocating returns \<open>10.0.0.2\<close>, the head of the queue.
\<close>

theorem C6_release_then_allocate_counterexample:
  "fst (run_ops [Allocate, Allocate, Release ''10.0.0.2''] (pool24, [])) = pool24_one_recycled \<and>
   release_then_allocate pool24_one_recycled ''10.0.0.3'' = Inr ''10.0.0.2''"
  by (intro conjI; code_simp)

text \<open>
  C6, as the code has it: releases append to the tail of the recycle queue and allocate
  takes its head. After the addresses \<open>as\<close> are released in order from any pool state,
  the next allocations return the addresses already queued and then \<open>as\<close>, in that
  order, and the cursor stays where it was. So when the queue was empty and one address
  is released, the next allocation returns that address.
\<close>

theorem C6_recycle_fifo:
  assumes "release_all as p = Inr p'"
  shows "fst (allocs (length (recycled p @ as)) p') = map Inr (recycled p @ as) \<and>
         nextIndex (snd (allocs (length (recycled p @ as)) p')) = nextIndex p"
proof -
  from release_all_Inr [OF assms] have r: "recycled p' = (recycled p @ as) @ []"
    and n: "nextIndex p' = nextIndex p" by simp_all
  from allocs_recycled [OF r] n show ?thesis by simp
qed

theorem C6_recycle_fifo_witness:
  "release_all [''10.0.0.3'', ''10.0.0.2''] pool24_two_allocated = Inr pool24_two_recycled \<and>
   fst (allocs 2 pool24_two_recycled) = [Inr ''10.0.0.3'', Inr ''10.0.0.2''] \<and>
   nextIndex (snd (allocs 2 pool24_two_recycled)) = 3 \<and>
   release_all [''10.0.0.2''] pool24_two_allocated = Inr pool24_one_recycled \<and>
   fst (allocs 1 pool24_one_recycled) = [Inr ''10.0.0.2'']"
proof -
  have r: "release_all [''10.0.0.3'', ''10.0.0.2''] pool24_two_allocated = Inr pool24_two_recycled"
    by code_simp
  have r1: "release_all [''10.0.0.2''] pool24_two_allocated = Inr pool24_one_recycled"
    by code_simp
  have q: "recycled pool24_two_allocated = []" "nextIndex pool24_two_allocated = 3"
    by (simp_all add: pool24_two_allocated_def)
  have l: "length (recycled pool24_two_allocated @ [''10.0.0.3'', ''10.0.0.2'']) = 2"
    and m: "map Inr (recycled pool24_two_allocated @ [''10.0.0.3'', ''10.0.0.2'']) =
            [Inr ''10.0.0.3'', Inr ''10.0.0.2'' :: error + string]"
    and l1: "length (recycled pool24_two_allocated @ [''10.0.0.2'']) = 1"
    and m1: "map Inr (recycled pool24_two_allocated @ [''10.0.0.2'']) =
            [Inr ''10.0.0.2'' :: error + string]"
    by (simp_all add: q)
  from C6_recycle_fifo [OF r] have
    "fst (allocs 2 pool24_two_recycled) = [Inr ''10.0.0.3'', Inr ''10.0.0.2''] \<and>
     nextIndex (snd (allocs 2 pool24_two_recycled)) = 3"
    unfolding l m q(2) by blast
  moreover from C6_recycle_fifo [OF r1] have "fst (allocs 1 pool24_one_recycled) = [Inr ''10.0.0.2'']"
    unfolding l1 m1 by blast
  ultimately show ?thesis using r r1 by blast
qed

text \<open>
  C8. A pool over a block of \<open>N\<close> addresses hands out exactly \<open>N - 3\<close> member
  addresses when nothing is released (network, broadcast and server address are not
  for members): the first \<open>N - 3\<close> allocate calls succeed, with the addresses at the
  indices 1 to \<open>N - 3\<close>, all different, and the next call fails on exhaustion.
\<close>

theorem C8_member_capacity:
  assumes "ParseCIDR p6 cidr = Some ipnet" and "NewIPPool p6 cidr = Inr p"
  shows "fst (allocs (block_total ipnet - 3) p) =
           map (\<lambda>i. Inr (addr_at p (Suc i))) [0 ..< block_total ipnet - 3] \<and>
         distinct (map (\<lambda>i. addr_at p (Suc i)) [0 ..< block_total ipnet - 3]) \<and>
         AllocateNodeIP (snd (allocs (block_total ipnet - 3) p)) = Inl ErrNoAvailableIPs"
proof -
  define n where "n = block_total ipnet - 3"
  from NewIPPool_Inr [OF assms(2)] assms(1) have
    f: "recycled p = []" "nextIndex p = 1" "totalUsable p = int (block_total ipnet) - 2"
      "4 \<le> block_total ipnet" "block_total ipnet \<le> 2 ^ 32"
    by auto
  have wf: "pool_wf p" using assms(2) by (rule NewIPPool_wf)
  have le: "nextIndex p + int n \<le> totalUsable p" using f by (simp add: n_def)
  from allocs_cursor [OF f(1) _ le] f(2) have a:
    "fst (allocs n p) = map (\<lambda>i. Inr (addr_at p (Suc i))) [0 ..< n]"
    "recycled (snd (allocs n p)) = []" "nextIndex (snd (allocs n p)) = 1 + int n"
    "totalUsable (snd (allocs n p)) = totalUsable p"
    by simp_all
  have "totalUsable p \<le> 1 + int n" using f by (simp add: n_def)
  with a(2-4) have ex: "AllocateNodeIP (snd (allocs n p)) = Inl ErrNoAvailableIPs"
    by (simp add: AllocateNodeIP_def)
  have "inj_on (\<lambda>i. addr_at p (Suc i)) {0 ..< n}"
  proof (rule inj_onI)
    fix i j assume ij: "i \<in> {0 ..< n}" "j \<in> {0 ..< n}" "addr_at p (Suc i) = addr_at p (Suc j)"
    have "n < 2 ^ 32 - 1" using f(4,5) by (simp add: n_def)
    with ij(1,2) have "Suc i < 2 ^ 32" "Suc j < 2 ^ 32" by simp_all
    from addr_at_inj [OF wf this ij(3)] show "i = j" by simp
  qed
  then have "distinct (map (\<lambda>i. addr_at p (Suc i)) [0 ..< n])"
    by (simp add: distinct_map)
  with a(1) ex show ?thesis by (simp add: n_def)
qed

theorem C8_member_capacity_witness:
  "ParseCIDR no_ipv6 ''10.0.0.0/24'' = Some \<lparr>IP = [10, 0, 0, 0], Mask = CIDRMask_bytes 24 4\<rparr> \<and>
   NewIPPool no_ipv6 ''10.0.0.0/24'' = Inr pool24 \<and>
   fst (allocs 253 pool24) = map (\<lambda>i. Inr (addr_at pool24 (Suc i))) [0 ..< 253] \<and>
   distinct (map (\<lambda>i. addr_at pool24 (Suc i)) [0 ..< 253]) \<and>
   AllocateNodeIP (snd (allocs 253 pool24)) = Inl ErrNoAvailableIPs"
  using C8_member_capacity [OF ParseCIDR_10_24 NewIPPool_10_24] ParseCIDR_10_24 NewIPPool_10_24
  by (simp add: block_total_10_24 del: upt_Suc)

text \<open>
  C5. For every block that \<open>NewIPPool\<close> accepts, the server's address is the first
  usable address of the block (the network address plus one); and in every pool state
  reachable through allocate, release, mark, resync and the snapshot round trip, the
  server's address is still that one, no allocate call returns it, and releasing it
  fails with the invalid-release error for the server's address.
\<close>

theorem C5_server_address_reserved:
  assumes "NewIPPool p6 cidr = Inr p0" and "reachable p6 cidr p"
  shows "(\<exists>ipnet net4 ip0.
            ParseCIDR p6 cidr = Some ipnet \<and> To4 (IP ipnet) = Some net4 \<and> length ip0 = 4 \<and>
            ip_val ip0 = ip_val net4 + 1 \<and> GetServerIP p0 = dotted ip0) \<and>
         GetServerIP p = GetServerIP p0 \<and>
         (\<forall>p'. AllocateNodeIP p \<noteq> Inr (GetServerIP p, p')) \<and>
         ReleaseNodeIP p (GetServerIP p) = Inl ErrCannotReleaseServerIP"
proof -
  from NewIPPool_server [OF assms(1)] have first:
    "\<exists>ipnet net4 ip0.
        ParseCIDR p6 cidr = Some ipnet \<and> To4 (IP ipnet) = Some net4 \<and> length ip0 = 4 \<and>
        ip_val ip0 = ip_val net4 + 1 \<and> GetServerIP p0 = dotted ip0"
    unfolding GetServerIP_def by blast
  have k: "server_kept p0 p" using assms(2,1) by (rule reachable_server_kept)
  have same: "GetServerIP p = GetServerIP p0"
    using server_keptD(5) [OF k] by (simp add: GetServerIP_def)
  have alloc: "\<forall>p'. AllocateNodeIP p \<noteq> Inr (GetServerIP p, p')"
    using server_kept_allocate [OF k] by (auto simp: GetServerIP_def)
  have rel: "ReleaseNodeIP p (GetServerIP p) = Inl ErrCannotReleaseServerIP"
    by (simp add: ReleaseNodeIP_def GetServerIP_def)
  from first same alloc rel show ?thesis by blast
qed

lemma reachable_pool24_one_recycled: "reachable no_ipv6 ''10.0.0.0/24'' pool24_one_recycled"
proof -
  have a1: "AllocateNodeIP pool24 = Inr (''10.0.0.2'', pool24_one_allocated)" by code_simp
  have a2: "AllocateNodeIP pool24_one_allocated = Inr (''10.0.0.3'', pool24_two_allocated)"
    by code_simp
  have r: "ReleaseNodeIP pool24_two_allocated ''10.0.0.2'' = Inr pool24_one_recycled"
    by code_simp
  have "reachable no_ipv6 ''10.0.0.0/24'' pool24" using NewIPPool_10_24 by (rule r_new)
  then have "reachable no_ipv6 ''10.0.0.0/24'' pool24_one_allocated" using a1 by (rule r_allocate)
  then have "reachable no_ipv6 ''10.0.0.0/24'' pool24_two_allocated" using a2 by (rule r_allocate)
  then show ?thesis using r by (rule r_release)
qed

theorem C5_server_address_reserved_witness:
  "NewIPPool no_ipv6 ''10.0.0.0/24'' = Inr pool24 \<and>
   reachable no_ipv6 ''10.0.0.0/24'' pool24_one_recycled \<and>
   GetServerIP pool24_one_recycled = ''10.0.0.1'' \<and>
   (\<forall>p'. AllocateNodeIP pool24_one_recycled \<noteq> Inr (''10.0.0.1'', p')) \<and>
   ReleaseNodeIP pool24_one_recycled ''10.0.0.1'' = Inl ErrCannotReleaseServerIP"
proof -
  have g: "GetServerIP pool24_one_recycled = ''10.0.0.1''"
    by (simp add: GetServerIP_def pool24_one_recycled_def)
  from C5_server_address_reserved [OF NewIPPool_10_24 reachable_pool24_one_recycled]
  have "(\<forall>p'. AllocateNodeIP pool24_one_recycled \<noteq> Inr (GetServerIP pool24_one_recycled, p')) \<and>
        ReleaseNodeIP pool24_one_recycled (GetServerIP pool24_one_recycled) =
          Inl ErrCannotReleaseServerIP"
    by blast
  with g NewIPPool_10_24 reachable_pool24_one_recycled show ?thesis by simp
qed

text \<open>
  C7. On a fresh pool, mark any list of in-range addresses as allocated (the list is
  arbitrary, so every order of a given set of addresses is covered) and resync the
  cursor. The cursor is then one past the highest index among the marked addresses
  (1 when none is marked), a value that depends on the set of marked addresses and not
  on their order; and every later successful allocate call returns an address that is
  none of the marked ones.
\<close>

theorem C7_resynced_cursor_avoids_marked:
  assumes "NewIPPool p6 cidr = Inr p0" and "\<forall>ip \<in> set ips. in_range p0 ip"
  shows "nextIndex (SyncNextIndex (mark_all ips p0)) =
           1 + Max (insert 0 {int i | i. i < nat (totalUsable p0) \<and> addr_at p0 i \<in> set ips}) \<and>
         (\<forall>ips'. set ips' = set ips \<longrightarrow>
            nextIndex (SyncNextIndex (mark_all ips' p0)) =
            nextIndex (SyncNextIndex (mark_all ips p0))) \<and>
         (\<forall>n ip. Inr ip \<in> set (fst (allocs n (SyncNextIndex (mark_all ips p0)))) \<longrightarrow>
            ip \<notin> set ips)"
proof (intro conjI allI impI)
  note s = sync_mark [OF assms]
  from s show "nextIndex (SyncNextIndex (mark_all ips p0)) =
           1 + Max (insert 0 {int i | i. i < nat (totalUsable p0) \<and> addr_at p0 i \<in> set ips})"
    by blast
  {
    fix ips' assume e: "set ips' = set ips"
    with assms(2) have "\<forall>ip \<in> set ips'. in_range p0 ip" by simp
    from sync_mark [OF assms(1) this] s e
    show "nextIndex (SyncNextIndex (mark_all ips' p0)) =
          nextIndex (SyncNextIndex (mark_all ips p0))" by simp
  }
  {
    fix n ip assume "Inr ip \<in> set (fst (allocs n (SyncNextIndex (mark_all ips p0))))"
    with allocs_fresh [of "SyncNextIndex (mark_all ips p0)" ip n] s
    show "ip \<notin> set ips" by blast
  }
qed

theorem C7_resynced_cursor_avoids_marked_witness:
  "NewIPPool no_ipv6 ''10.0.0.0/24'' = Inr pool24 \<and>
   in_range pool24 ''10.0.0.5'' \<and> in_range pool24 ''10.0.0.3'' \<and>
   nextIndex (SyncNextIndex (mark_all [''10.0.0.5'', ''10.0.0.3''] pool24)) = 5 \<and>
   nextIndex (SyncNextIndex (mark_all [''10.0.0.3'', ''10.0.0.5''] pool24)) = 5 \<and>
   fst (allocs 2 (SyncNextIndex (mark_all [''10.0.0.5'', ''10.0.0.3''] pool24))) =
     [Inr ''10.0.0.6'', Inr ''10.0.0.7''] \<and>
   ''10.0.0.6'' \<notin> set [''10.0.0.5'', ''10.0.0.3'']"
proof -
  have a4: "addr_at pool24 4 = ''10.0.0.5''" and a2: "addr_at pool24 2 = ''10.0.0.3''"
    unfolding addr_at_def pool24_def by code_simp+
  have r5: "in_range pool24 ''10.0.0.5''"
    unfolding in_range_def by (rule bexI [of _ 4]) (simp add: a4, simp add: pool24_def)
  have r3: "in_range pool24 ''10.0.0.3''"
    unfolding in_range_def by (rule bexI [of _ 2]) (simp add: a2, simp add: pool24_def)
  have rng: "\<forall>ip \<in> set [''10.0.0.5'', ''10.0.0.3'']. in_range pool24 ip"
    using r5 r3 by simp
  have n1: "nextIndex (SyncNextIndex (mark_all [''10.0.0.5'', ''10.0.0.3''] pool24)) = 5"
    by code_simp
  have al: "fst (allocs 2 (SyncNextIndex (mark_all [''10.0.0.5'', ''10.0.0.3''] pool24))) =
     [Inr ''10.0.0.6'', Inr ''10.0.0.7'']" by code_simp
  note t = C7_resynced_cursor_avoids_marked [OF NewIPPool_10_24 rng]
  note t2 = t [THEN conjunct2, THEN conjunct1, rule_format]
  note t3 = t [THEN conjunct2, THEN conjunct2, rule_format]
  have se: "set [''10.0.0.3'', ''10.0.0.5''] = set [''10.0.0.5'', ''10.0.0.3'']"
    by (simp add: insert_commute)
  have n2: "nextIndex (SyncNextIndex (mark_all [''10.0.0.3'', ''10.0.0.5''] pool24)) = 5"
    using t2 [OF se] n1 by (simp only:)
  have "Inr ''10.0.0.6'' \<in> set (fst (allocs 2 (SyncNextIndex (mark_all [''10.0.0.5'', ''10.0.0.3''] pool24))))"
    unfolding al by simp
  then have fresh: "''10.0.0.6'' \<notin> set [''10.0.0.5'', ''10.0.0.3'']" by (rule t3)
  show ?thesis
    by (intro conjI) (rule NewIPPool_10_24 r5 r3 n1 n2 al fresh)+
qed

text \<open>
  C1. The claim: after the hub of a network is deleted, its record and its name-index
  entry are gone, so a hub of the same name can be created in that network again.
  \<open>DeleteServer\<close> removes the record, but the key it deletes from the name index is
  \<open>serverName\<close>, where the index is keyed by \<open>networkID:name\<close>: the entry stays,
  and creating the hub again fails with "server name already exists".
\<close>

theorem C1_hub_name_not_reusable_after_delete:
  "sm_CreateNetwork empty_DB ''net-1'' 100 ''n1'' ''10.0.0.0/24'' =
     Inr (\<lparr>net_ID = ''net-1'', net_Name = ''n1'', net_CIDR = ''10.0.0.0/24'',
           net_CreatedAt = 100\<rparr>, db_net1) \<and>
   sm_CreateServer db_net1 ''srv-1'' (101, 102) ''net-1'' ''s1'' ''192.0.2.1'' 51820 ''10.0.0.1''
       ''hub-private'' ''hub-public'' = Inr (hub_s1, db_hub) \<and>
   sm_DeleteServer db_hub ''net-1'' = Inr db_hub_deleted \<and>
   bucket_get (servers db_hub_deleted) ''srv-1'' = None \<and>
   bucket_get (servers_by_name db_hub_deleted) ''net-1:s1'' = Some ''srv-1'' \<and>
   sm_CreateServer db_hub_deleted ''srv-2'' (103, 104) ''net-1'' ''s1'' ''192.0.2.1'' 51820
       ''10.0.0.1'' ''hub-private-2'' ''hub-public-2'' = Inl (ErrServerNameExists ''s1'')"
proof (intro conjI)
  show "sm_CreateNetwork empty_DB ''net-1'' 100 ''n1'' ''10.0.0.0/24'' =
     Inr (\<lparr>net_ID = ''net-1'', net_Name = ''n1'', net_CIDR = ''10.0.0.0/24'',
           net_CreatedAt = 100\<rparr>, db_net1)"
    by (simp add: Let_def sm_CreateNetwork_def bucket_get_def bucket_put_def empty_DB_def
        db_net1_def)
  show "sm_CreateServer db_net1 ''srv-1'' (101, 102) ''net-1'' ''s1'' ''192.0.2.1'' 51820
       ''10.0.0.1'' ''hub-private'' ''hub-public'' = Inr (hub_s1, db_hub)"
    by (simp add: Let_def sm_CreateServer_def bucket_get_def bucket_put_def empty_DB_def
        db_net1_def db_hub_def hub_s1_def)
  show "sm_DeleteServer db_hub ''net-1'' = Inr db_hub_deleted"
    by (simp add: Let_def sm_DeleteServer_def bucket_delete_def empty_DB_def db_net1_def
        db_hub_def hub_s1_def db_hub_deleted_def)
  show "bucket_get (servers db_hub_deleted) ''srv-1'' = None"
    by (simp add: bucket_get_def db_hub_deleted_def)
  show "bucket_get (servers_by_name db_hub_deleted) ''net-1:s1'' = Some ''srv-1''"
    by (simp add: bucket_get_def db_hub_deleted_def)
  show "sm_CreateServer db_hub_deleted ''srv-2'' (103, 104) ''net-1'' ''s1'' ''192.0.2.1'' 51820
       ''10.0.0.1'' ''hub-private-2'' ''hub-public-2'' = Inl (ErrServerNameExists ''s1'')"
    by (simp add: Let_def sm_CreateServer_def bucket_get_def bucket_put_def empty_DB_def
        db_net1_def db_hub_deleted_def)
qed

text \<open>
  C2. The claim: whatever the arguments of \<open>CreateNode\<close>, the unspecified type
  included, a stored member of type peer has a public address. \<open>CreateNode\<close> checks
  "peer needs a public address" against the type as passed and only afterwards turns
  the unspecified type into peer: called with no type and no public address, it
  stores a member of type peer whose public address is empty.
\<close>

theorem C2_peer_without_address_stored:
  "vnm_CreateVirtualNetwork no_ipv6 (DefaultIPValidator no_ipv6) ''net-1'' 100
       \<lparr>vnm_storage = empty_DB, ipPools = []\<rparr> ''n1'' ''10.0.0.0/24'' =
     (Inr \<lparr>net_ID = ''net-1'', net_Name = ''n1'', net_CIDR = ''10.0.0.0/24'',
           net_CreatedAt = 100\<rparr>, vnm_net1) \<and>
   vnm_CreateNode no_ipv6 (DefaultIPValidator no_ipv6) (Inr (''node-private'', ''node-public''))
       ''node-1'' (110, 111) vnm_net1 ''n1'' ''node1'' [] 0 [] =
     (Inr node1_no_address, vnm_node1) \<and>
   sm_GetNodeByName (vnm_storage vnm_node1) ''net-1'' ''node1'' = Inr node1_no_address \<and>
   node_Type node1_no_address = NodeTypePeer \<and>
   node_PublicAddress node1_no_address = []"
proof (intro conjI)
  show "sm_GetNodeByName (vnm_storage vnm_node1) ''net-1'' ''node1'' = Inr node1_no_address"
    by (simp add: sm_GetNodeByName_def bucket_get_def vnm_node1_def)
qed (simp_all add: CreateVirtualNetwork_n1 CreateNode_no_type_no_address node1_no_address_def
    NodeTypePeer_def)

text \<open>
  C9. The documents follow the visibility rules. The hub's document is its interface
  block followed by one entry per member, in the members' order, and the entry of a
  member that is not of type peer carries no reachability hint. The document of a
  peer-type member is its interface block, the hub's entry and one entry for every
  other peer-type member, and nothing else (so none for a route-type member). The
  document of a route-type member is its interface block, the hub's entry and one entry
  for every peer-type member, and nothing else (so none for another route-type member).
\<close>

theorem C9_visibility_rules:
  "generateServerConfig network server ns =
     server_interface server @ concat (map entry_in_hub_document ns) \<and>
   (node_Type n \<noteq> NodeTypePeer \<longrightarrow>
      entry_in_hub_document n =
        peer_entry (node_PublicKey n) (node_VirtualIP n @ ''/32'') None) \<and>
   (node_Type node = NodeTypePeer \<longrightarrow>
      generateNodeConfig network server node ns =
        node_interface node @ hub_entry network server @
        concat (map entry_in_member_document
          (filter (\<lambda>otherNode. node_ID otherNode \<noteq> node_ID node \<and>
                                node_Type otherNode = NodeTypePeer) ns))) \<and>
   (node_Type node = NodeTypeRoute \<longrightarrow>
      generateNodeConfig network server node ns =
        node_interface node @ hub_entry network server @
        concat (map entry_in_member_document
          (filter (\<lambda>otherNode. node_Type otherNode = NodeTypePeer) ns)))"
proof (intro conjI impI)
  show "generateServerConfig network server ns =
     server_interface server @ concat (map entry_in_hub_document ns)"
    by (rule generateServerConfig_entries)
  show "entry_in_hub_document n =
        peer_entry (node_PublicKey n) (node_VirtualIP n @ ''/32'') None"
    if "node_Type n \<noteq> NodeTypePeer"
    using that by (simp add: entry_in_hub_document_def)
  have ne: "NodeTypePeer \<noteq> NodeTypeRoute" by (simp add: NodeTypePeer_def NodeTypeRoute_def)
  show "generateNodeConfig network server node ns =
        node_interface node @ hub_entry network server @
        concat (map entry_in_member_document
          (filter (\<lambda>otherNode. node_ID otherNode \<noteq> node_ID node \<and>
                                node_Type otherNode = NodeTypePeer) ns))"
    if "node_Type node = NodeTypePeer"
    using that ne by (simp add: generateNodeConfig_entries)
  show "generateNodeConfig network server node ns =
        node_interface node @ hub_entry network server @
        concat (map entry_in_member_document
          (filter (\<lambda>otherNode. node_Type otherNode = NodeTypePeer) ns))"
    if "node_Type node = NodeTypeRoute"
    using that ne by (simp add: generateNodeConfig_entries)
qed

theorem C9_visibility_rules_witness:
  "generateServerConfig net1 hub_s1 [P1, P2, R1, R2] =
     server_interface hub_s1 @ entry_in_hub_document P1 @ entry_in_hub_document P2 @
     entry_in_hub_document R1 @ entry_in_hub_document R2 \<and>
   entry_in_hub_document P1 =
     peer_entry ''public-P1'' ''10.0.0.2/32'' (Some ''198.51.100.1:51820'') \<and>
   entry_in_hub_document R1 = peer_entry ''public-R1'' ''10.0.0.4/32'' None \<and>
   entry_in_hub_document R2 = peer_entry ''public-R2'' ''10.0.0.5/32'' None \<and>
   node_Type P1 = NodeTypePeer \<and>
   generateNodeConfig net1 hub_s1 P1 [P1, P2, R1, R2] =
     node_interface P1 @ hub_entry net1 hub_s1 @ entry_in_member_document P2 \<and>
   node_Type R1 = NodeTypeRoute \<and>
   generateNodeConfig net1 hub_s1 R1 [P1, P2, R1, R2] =
     node_interface R1 @ hub_entry net1 hub_s1 @ entry_in_member_document P1 @
     entry_in_member_document P2"
proof -
  have ty: "node_Type P1 = NodeTypePeer" "node_Type P2 = NodeTypePeer"
    "node_Type R1 = NodeTypeRoute" "node_Type R2 = NodeTypeRoute"
    by (simp_all add: P1_def P2_def R1_def R2_def member_def)
  have ne: "NodeTypeRoute \<noteq> NodeTypePeer" by (simp add: NodeTypePeer_def NodeTypeRoute_def)
  have ids: "node_ID P2 \<noteq> node_ID P1" by (simp add: P1_def P2_def member_def)
  have f: "node_PublicKey R1 = ''public-R1''" "node_VirtualIP R1 = ''10.0.0.4''"
    "node_PublicKey R2 = ''public-R2''" "node_VirtualIP R2 = ''10.0.0.5''"
    by (simp_all add: R1_def R2_def member_def)
  have i: "itoa 51820 = ''51820''"
    by (simp add: itoa_def itoa_nat.simps digit_char_def, code_simp)
  have p1: "entry_in_hub_document P1 =
     peer_entry ''public-P1'' ''10.0.0.2/32'' (Some ''198.51.100.1:51820'')"
    by (simp add: entry_in_hub_document_def P1_def member_def NodeTypePeer_def
        FormatEndpoint_def i)
  note h = C9_visibility_rules [of net1 hub_s1 "[P1, P2, R1, R2]" R1 P1, THEN conjunct1]
  note r1 = C9_visibility_rules [of net1 hub_s1 "[P1, P2, R1, R2]" R1 P1,
      THEN conjunct2, THEN conjunct1, rule_format]
  note r2 = C9_visibility_rules [of net1 hub_s1 "[P1, P2, R1, R2]" R2 P1,
      THEN conjunct2, THEN conjunct1, rule_format]
  note dp = C9_visibility_rules [of net1 hub_s1 "[P1, P2, R1, R2]" R1 P1,
      THEN conjunct2, THEN conjunct2, THEN conjunct1, rule_format, OF ty(1)]
  note dr = C9_visibility_rules [of net1 hub_s1 "[P1, P2, R1, R2]" R1 R1,
      THEN conjunct2, THEN conjunct2, THEN conjunct2, rule_format, OF ty(3)]
  have e1: "entry_in_hub_document R1 = peer_entry ''public-R1'' ''10.0.0.4/32'' None"
    using r1 ty(3) ne by (simp add: f)
  have e2: "entry_in_hub_document R2 = peer_entry ''public-R2'' ''10.0.0.5/32'' None"
    using r2 ty(4) ne by (simp add: f)
  have d1: "generateNodeConfig net1 hub_s1 P1 [P1, P2, R1, R2] =
     node_interface P1 @ hub_entry net1 hub_s1 @ entry_in_member_document P2"
    using dp ty ne ids by simp
  have d2: "generateNodeConfig net1 hub_s1 R1 [P1, P2, R1, R2] =
     node_interface R1 @ hub_entry net1 hub_s1 @ entry_in_member_document P1 @
     entry_in_member_document P2"
    using dr ty ne by simp
  have hd: "generateServerConfig net1 hub_s1 [P1, P2, R1, R2] =
     server_interface hub_s1 @ entry_in_hub_document P1 @ entry_in_hub_document P2 @
     entry_in_hub_document R1 @ entry_in_hub_document R2"
    using h by simp
  show ?thesis
    by (intro conjI) (rule hd p1 e1 e2 ty d1 d2)+
qed

end
